theory Spec2Isabelle
  imports Main
begin

section \<open>TP-Link smart plug switch: the polling and retry state machine\<close>

text \<open>
  A shallow embedding of \<^verbatim>\<open>homeassistant/components/tplink/switch.py\<close>: the class
  \<^verbatim>\<open>SmartPlugSwitch\<close> with its methods \<^verbatim>\<open>update_state\<close>, \<^verbatim>\<open>attempt_update\<close>,
  \<^verbatim>\<open>async_update\<close>, \<^verbatim>\<open>turn_on\<close> and \<^verbatim>\<open>turn_off\<close>.

  The instance attributes form a record that every method takes and returns. The device
  behind \<^verbatim>\<open>self.smartplug\<close> is an unreliable remote party: each of its calls takes the
  current state of the outside world (type \<open>'d\<close>: the device, the network, the clock) and
  returns either a raised exception or a value, together with the next world state. An
  exception that leaves a method is the \<open>Inl\<close> branch of its result; the attributes and
  the world survive it, as the Python object does.
\<close>

subsection \<open>Exceptions and the device client\<close>

datatype exn = SmartDeviceException | OSError | KeyError | StopIteration

text \<open>
  Modelled from the spec: the entries of the \<^verbatim>\<open>children\<close> list of a multi-outlet device
  (library \<^verbatim>\<open>pyHS100\<close>, not part of the repository). Section 6 of the specification
  gives each child an id, an alias and a state.
\<close>

record child =
  child_id :: string
  child_alias :: string
  child_state :: int

text \<open>
  Modelled from the spec: the system information dictionary of \<^verbatim>\<open>pyHS100\<close>. The
  key \<^verbatim>\<open>children\<close> may be missing (\<open>None\<close>), in which case subscripting raises
  \<^verbatim>\<open>KeyError\<close>; all other keys are kept as an association list.
\<close>

record sysinfo =
  children :: "child list option"
  entries :: "(string \<times> string) list"

text \<open>Python truthiness of a dictionary: it is false exactly when there is no key.\<close>

definition dict_truthy :: "sysinfo \<Rightarrow> bool" where
  "dict_truthy info = (case children info of Some cs \<Rightarrow> True | None \<Rightarrow> entries info \<noteq> [])"

text \<open>The truthiness of \<^verbatim>\<open>self._sysinfo\<close>, which is \<^verbatim>\<open>None\<close> or a dictionary.\<close>

definition sysinfo_truthy :: "sysinfo option \<Rightarrow> bool" where
  "sysinfo_truthy v = (case v of None \<Rightarrow> False | Some info \<Rightarrow> dict_truthy info)"

text \<open>
  Modelled from the spec: the realtime meter snapshot of \<^verbatim>\<open>pyHS100\<close> with its four
  readings. The numeric type \<open>'n\<close> of a reading is left open.
\<close>

record 'n emeter_readings =
  reading_power :: 'n
  reading_total :: 'n
  reading_voltage :: 'n
  reading_current :: 'n

text \<open>
  Modelled from the spec: the interface of the device client \<^verbatim>\<open>pyHS100.SmartPlug\<close>
  (section 6), together with the three services of the Python runtime the module uses.
  \<open>plug_host\<close>, \<open>plug_context\<close> and \<open>SWITCH_STATE_ON\<close> are plain attributes; every other
  member of the client talks to the device and may raise. \<open>strftime_e\<close> is
  \<^verbatim>\<open>int(time.strftime("%e"))\<close>, the day of the month on the clock; \<open>str_format\<close> is
  \<^verbatim>\<open>str.format\<close> with the format string as first argument; \<open>asyncio_sleep\<close> is what the
  world does while the coroutine is suspended for the given number of seconds.
\<close>

record ('d, 'n) smartplug =
  plug_sys_info :: "'d \<Rightarrow> (exn + sysinfo) \<times> 'd"
  plug_host :: string
  plug_mac :: "'d \<Rightarrow> (exn + string) \<times> 'd"
  plug_model :: "'d \<Rightarrow> (exn + string) \<times> 'd"
  plug_alias :: "'d \<Rightarrow> (exn + string) \<times> 'd"
  plug_context :: "string option"
  plug_state :: "'d \<Rightarrow> (exn + string) \<times> 'd"
  SWITCH_STATE_ON :: string
  plug_has_emeter :: "'d \<Rightarrow> (exn + bool) \<times> 'd"
  plug_get_emeter_realtime :: "'d \<Rightarrow> (exn + 'n emeter_readings) \<times> 'd"
  plug_get_emeter_daily :: "'d \<Rightarrow> (exn + (int \<rightharpoonup> 'n)) \<times> 'd"
  plug_turn_on :: "'d \<Rightarrow> (exn + unit) \<times> 'd"
  plug_turn_off :: "'d \<Rightarrow> (exn + unit) \<times> 'd"
  strftime_e :: "'d \<Rightarrow> int"
  str_format :: "string \<Rightarrow> 'n \<Rightarrow> string"
  asyncio_sleep :: "nat \<Rightarrow> 'd \<Rightarrow> 'd"

subsection \<open>Module constants\<close>

text \<open>
  Modelled from the spec: \<open>ATTR_CURRENT_POWER_W\<close>, \<open>ATTR_TODAY_ENERGY_KWH\<close> and
  \<open>ATTR_VOLTAGE\<close> are imported from other modules of Home Assistant that are not part
  of the sources at hand; they are the keys of the corresponding meter readings.
\<close>

definition ATTR_CURRENT_POWER_W :: string where
  "ATTR_CURRENT_POWER_W = ''current_power_w''"

definition ATTR_TODAY_ENERGY_KWH :: string where
  "ATTR_TODAY_ENERGY_KWH = ''today_energy_kwh''"

definition ATTR_VOLTAGE :: string where
  "ATTR_VOLTAGE = ''voltage''"

definition ATTR_TOTAL_ENERGY_KWH :: string where
  "ATTR_TOTAL_ENERGY_KWH = ''total_energy_kwh''"

definition ATTR_CURRENT_A :: string where
  "ATTR_CURRENT_A = ''current_a''"

definition MAX_ATTEMPTS :: nat where
  "MAX_ATTEMPTS = 20"

definition SLEEP_TIME :: nat where
  "SLEEP_TIME = 2"

subsection \<open>The attributes of a switch\<close>

text \<open>The two warnings the module writes to its logger.\<close>

datatype log_record =
  Retrying nat string "string option" exn
  | Could_not_read "string option" "string option"

text \<open>
  The attributes set by \<^verbatim>\<open>__init__\<close>, without the leading underscore (\<open>alias_name\<close> is \<^verbatim>\<open>_alias\<close>). \<open>LOGGER\<close> is
  not an attribute: it collects what the module-level logger has been given, oldest first.
\<close>

record switch =
  sysinfo :: "sysinfo option"
  state :: "bool option"
  available :: bool
  emeter_params :: "string \<rightharpoonup> string"
  mac :: "string option"
  alias_name :: "string option"
  host :: "string option"
  model :: "string option"
  device_id :: "string option"
  is_ready :: bool
  LOGGER :: "log_record list"

definition init :: switch where
  "init = \<lparr>sysinfo = None, state = None, available = False, emeter_params = Map.empty,
     mac = None, alias_name = None, host = None, model = None, device_id = None,
     is_ready = False, LOGGER = []\<rparr>"

subsection \<open>Sequencing statements that may raise\<close>

type_synonym ('d, 'a) prog = "switch \<times> 'd \<Rightarrow> (exn + 'a) \<times> switch \<times> 'd"

definition then_do :: "('d, 'a) prog \<Rightarrow> ('a \<Rightarrow> ('d, 'b) prog) \<Rightarrow> ('d, 'b) prog" where
  "then_do m k = (\<lambda>sd. case m sd of
      (Inl e, sd') \<Rightarrow> (Inl e, sd')
    | (Inr a, sd') \<Rightarrow> k a sd')"

definition query :: "('d \<Rightarrow> (exn + 'a) \<times> 'd) \<Rightarrow> ('d, 'a) prog" where
  "query f = (\<lambda>(s, d). case f d of (r, d') \<Rightarrow> (r, s, d'))"

definition assign :: "(switch \<Rightarrow> switch) \<Rightarrow> ('d, unit) prog" where
  "assign f = (\<lambda>(s, d). (Inr (), f s, d))"

definition raise :: "exn \<Rightarrow> ('d, 'a) prog" where
  "raise e = (\<lambda>sd. (Inl e, sd))"

definition return :: "'a \<Rightarrow> ('d, 'a) prog" where
  "return a = (\<lambda>sd. (Inr a, sd))"

subsection \<open>The methods\<close>

text \<open>
  \<^verbatim>\<open>_plug_from_context\<close>: the first child whose id is the context. A missing
  \<^verbatim>\<open>children\<close> key raises \<^verbatim>\<open>KeyError\<close>, and \<^verbatim>\<open>next\<close> on the exhausted generator
  raises \<^verbatim>\<open>StopIteration\<close>.
\<close>

definition plug_from_context :: "('d, 'n) smartplug \<Rightarrow> ('d, child) prog" where
  "plug_from_context c =
     then_do (query (plug_sys_info c)) (\<lambda>info.
       case children info of
         None \<Rightarrow> raise KeyError
       | Some cs \<Rightarrow>
           (case find (\<lambda>ch. Some (child_id ch) = plug_context c) cs of
              None \<Rightarrow> raise StopIteration
            | Some ch \<Rightarrow> return ch))"

definition update_state :: "('d, 'n) smartplug \<Rightarrow> ('d, unit) prog" where
  "update_state c =
     (case plug_context c of
        None \<Rightarrow>
          then_do (query (plug_state c)) (\<lambda>v.
            assign (\<lambda>s. s\<lparr>state := Some (v = SWITCH_STATE_ON c)\<rparr>))
      | Some ctx \<Rightarrow>
          then_do (plug_from_context c) (\<lambda>ch.
            assign (\<lambda>s. s\<lparr>state := Some (child_state ch = 1)\<rparr>)))"

text \<open>The block of \<^verbatim>\<open>attempt_update\<close> guarded by \<^verbatim>\<open>if not self._sysinfo\<close>.\<close>

definition resolve_identity :: "('d, 'n) smartplug \<Rightarrow> ('d, unit) prog" where
  "resolve_identity c =
     then_do (query (plug_sys_info c)) (\<lambda>info.
     then_do (assign (\<lambda>s. s\<lparr>sysinfo := Some info\<rparr>)) (\<lambda>_.
     then_do (assign (\<lambda>s. s\<lparr>host := Some (plug_host c)\<rparr>)) (\<lambda>_.
     then_do (query (plug_mac c)) (\<lambda>m.
     then_do (assign (\<lambda>s. s\<lparr>mac := Some m\<rparr>)) (\<lambda>_.
     then_do (query (plug_model c)) (\<lambda>md.
     then_do (assign (\<lambda>s. s\<lparr>model := Some md\<rparr>)) (\<lambda>_.
       case plug_context c of
         None \<Rightarrow>
           then_do (query (plug_alias c)) (\<lambda>a.
           then_do (assign (\<lambda>s. s\<lparr>alias_name := Some a\<rparr>)) (\<lambda>_.
             assign (\<lambda>s. s\<lparr>device_id := mac s\<rparr>)))
       | Some ctx \<Rightarrow>
           then_do (plug_from_context c) (\<lambda>ch.
           then_do (assign (\<lambda>s. s\<lparr>alias_name := Some (child_alias ch)\<rparr>)) (\<lambda>_.
             assign (\<lambda>s. s\<lparr>device_id := Some ctx\<rparr>))))))))))"

definition identity_step :: "('d, 'n) smartplug \<Rightarrow> ('d, unit) prog" where
  "identity_step c = (\<lambda>(s, d).
     if \<not> sysinfo_truthy (sysinfo s)
     then resolve_identity c (s, d)
     else return () (s, d))"

text \<open>The block of \<^verbatim>\<open>attempt_update\<close> that reads the energy meter.\<close>

definition set_param :: "string \<Rightarrow> string \<Rightarrow> ('d, unit) prog" where
  "set_param k v = assign (\<lambda>s. s\<lparr>emeter_params := (emeter_params s)(k \<mapsto> v)\<rparr>)"

definition emeter_step :: "('d, 'n) smartplug \<Rightarrow> ('d, unit) prog" where
  "emeter_step c =
     then_do (query (plug_has_emeter c)) (\<lambda>has.
       if has then
         then_do (query (plug_get_emeter_realtime c)) (\<lambda>emeter_readings.
         then_do (set_param ATTR_CURRENT_POWER_W
                    (str_format c ''{:.2f}'' (reading_power emeter_readings))) (\<lambda>_.
         then_do (set_param ATTR_TOTAL_ENERGY_KWH
                    (str_format c ''{:.3f}'' (reading_total emeter_readings))) (\<lambda>_.
         then_do (set_param ATTR_VOLTAGE
                    (str_format c ''{:.1f}'' (reading_voltage emeter_readings))) (\<lambda>_.
         then_do (set_param ATTR_CURRENT_A
                    (str_format c ''{:.2f}'' (reading_current emeter_readings))) (\<lambda>_.
         then_do (query (plug_get_emeter_daily c)) (\<lambda>emeter_statics.
           (\<lambda>(s, d).
              case emeter_statics (strftime_e c d) of
                None \<Rightarrow> return () (s, d)
              | Some v \<Rightarrow>
                  set_param ATTR_TODAY_ENERGY_KWH (str_format c ''{:.3f}'' v) (s, d))))))))
       else return ())"

text \<open>The body of the \<^verbatim>\<open>try\<close> statement of \<^verbatim>\<open>attempt_update\<close>.\<close>

definition attempt_update_body :: "('d, 'n) smartplug \<Rightarrow> ('d, unit) prog" where
  "attempt_update_body c =
     then_do (identity_step c) (\<lambda>_.
     then_do (update_state c) (\<lambda>_.
     then_do (emeter_step c) (\<lambda>_.
       assign (\<lambda>s. s\<lparr>is_ready := True\<rparr>))))"

text \<open>
  \<^verbatim>\<open>attempt_update\<close>: the handler catches \<^verbatim>\<open>SmartDeviceException\<close> and \<^verbatim>\<open>OSError\<close>,
  writes a warning and returns; any other exception leaves the method.
\<close>

definition attempt_update :: "('d, 'n) smartplug \<Rightarrow> ('d, unit) prog" where
  "attempt_update c = (\<lambda>sd.
     case attempt_update_body c sd of
       (Inr u, s', d') \<Rightarrow> (Inr (), s', d')
     | (Inl ex, s', d') \<Rightarrow>
         if ex = SmartDeviceException \<or> ex = OSError
         then (Inr (),
               s'\<lparr>LOGGER := LOGGER s' @ [Retrying SLEEP_TIME (plug_host c) (alias_name s') ex]\<rparr>,
               d')
         else (Inl ex, s', d'))"

text \<open>
  \<^verbatim>\<open>await self.hass.async_add_executor_job(self.attempt_update)\<close>: the job runs in the
  executor, and the coroutine is resumed with its result or with the exception it raised.
  There is one exception to that: the future of the job cannot carry \<^verbatim>\<open>StopIteration\<close>,
  so the coroutine that awaits it is never resumed. That outcome is \<open>None\<close>: the
  coroutine neither returns nor raises, and the switch and the world are as the job left
  them.
\<close>

type_synonym 'd coroutine = "switch \<times> 'd \<Rightarrow> (exn + unit) option \<times> switch \<times> 'd"

definition async_add_executor_job :: "('d, unit) prog \<Rightarrow> 'd coroutine" where
  "async_add_executor_job job = (\<lambda>sd.
     case job sd of
       (Inr u, sd') \<Rightarrow> (Some (Inr u), sd')
     | (Inl ex, sd') \<Rightarrow>
         if ex = StopIteration then (None, sd') else (Some (Inl ex), sd'))"

text \<open>
  The \<^verbatim>\<open>for ... else\<close> loop of \<^verbatim>\<open>async_update\<close>, with the number of iterations that
  are left. The awaited sleep lets the world go on for \<open>SLEEP_TIME\<close> seconds. The
  \<^verbatim>\<open>else\<close> branch runs when the range is used up.
\<close>

fun update_loop :: "('d, 'n) smartplug \<Rightarrow> nat \<Rightarrow> 'd coroutine" where
  "update_loop c 0 (s, d) =
     (Some (Inr ()),
      (if available s then s\<lparr>LOGGER := LOGGER s @ [Could_not_read (host s) (alias_name s)]\<rparr> else s)
        \<lparr>available := False\<rparr>,
      d)"
| "update_loop c (Suc n) (s, d) =
     (case async_add_executor_job (attempt_update c) (s\<lparr>is_ready := False\<rparr>, d) of
        (None, s', d') \<Rightarrow> (None, s', d')
      | (Some (Inl ex), s', d') \<Rightarrow> (Some (Inl ex), s', d')
      | (Some (Inr u), s', d') \<Rightarrow>
          if is_ready s' then (Some (Inr ()), s'\<lparr>available := True\<rparr>, d')
          else update_loop c n (s', asyncio_sleep c SLEEP_TIME d'))"

definition async_update :: "('d, 'n) smartplug \<Rightarrow> 'd coroutine" where
  "async_update c = update_loop c MAX_ATTEMPTS"

definition turn_on :: "('d, 'n) smartplug \<Rightarrow> ('d, unit) prog" where
  "turn_on c = query (plug_turn_on c)"

definition turn_off :: "('d, 'n) smartplug \<Rightarrow> ('d, unit) prog" where
  "turn_off c = then_do (query (plug_turn_off c)) (\<lambda>_. update_state c)"

text \<open>The properties the host reads.\<close>

definition is_on :: "switch \<Rightarrow> bool option" where
  "is_on s = state s"

definition device_state_attributes :: "switch \<Rightarrow> (string \<rightharpoonup> string)" where
  "device_state_attributes s = emeter_params s"

subsection \<open>Attempts of one refresh cycle\<close>

text \<open>
  The exceptions the handler of \<^verbatim>\<open>attempt_update\<close> catches: the device error and the
  I/O error.
\<close>

definition caught :: "exn \<Rightarrow> bool" where
  "caught ex = (ex = SmartDeviceException \<or> ex = OSError)"

text \<open>
  \<open>all_failed c k\<close>: the first \<open>k\<close> iterations of the loop of \<^verbatim>\<open>async_update\<close> all end
  with \<^verbatim>\<open>attempt_update\<close> returning and \<^verbatim>\<open>_is_ready\<close> still false.
  \<open>after_failures c k\<close> is where the switch and the world are after these \<open>k\<close>
  iterations, each with its sleep.
\<close>

fun all_failed :: "('d, 'n) smartplug \<Rightarrow> nat \<Rightarrow> switch \<times> 'd \<Rightarrow> bool" where
  "all_failed c 0 (s, d) = True"
| "all_failed c (Suc k) (s, d) =
     (case attempt_update c (s\<lparr>is_ready := False\<rparr>, d) of
        (Inl ex, s', d') \<Rightarrow> False
      | (Inr u, s', d') \<Rightarrow>
          \<not> is_ready s' \<and> all_failed c k (s', asyncio_sleep c SLEEP_TIME d'))"

fun after_failures :: "('d, 'n) smartplug \<Rightarrow> nat \<Rightarrow> switch \<times> 'd \<Rightarrow> switch \<times> 'd" where
  "after_failures c 0 (s, d) = (s, d)"
| "after_failures c (Suc k) (s, d) =
     (case attempt_update c (s\<lparr>is_ready := False\<rparr>, d) of
        (r, s', d') \<Rightarrow> after_failures c k (s', asyncio_sleep c SLEEP_TIME d'))"


subsection \<open>The host\<close>

text \<open>
  The host calls the methods of a switch in any order, and time passes between the calls.
  An exception that reaches the host ends the call, not the switch, and a refresh that is
  never resumed leaves the switch as it was when it stopped.
\<close>

datatype host_call = Refresh | Attempt | Turn_on | Turn_off | Wait nat

fun host_step :: "('d, 'n) smartplug \<Rightarrow> host_call \<Rightarrow> switch \<times> 'd \<Rightarrow> switch \<times> 'd" where
  "host_step c Refresh sd = snd (async_update c sd)"
| "host_step c Attempt sd = snd (attempt_update c sd)"
| "host_step c Turn_on sd = snd (turn_on c sd)"
| "host_step c Turn_off sd = snd (turn_off c sd)"
| "host_step c (Wait n) (s, d) = (s, asyncio_sleep c n d)"

fun host_run :: "('d, 'n) smartplug \<Rightarrow> host_call list \<Rightarrow> switch \<times> 'd \<Rightarrow> switch \<times> 'd" where
  "host_run c [] sd = sd"
| "host_run c (x # xs) sd = host_run c xs (host_step c x sd)"

text \<open>The identity of the device as the switch has it.\<close>

definition device_identity ::
  "switch \<Rightarrow> sysinfo option \<times> string option \<times> string option \<times> string option
     \<times> string option \<times> string option" where
  "device_identity s = (sysinfo s, host s, mac s, model s, alias_name s, device_id s)"

subsection \<open>Properties of a device client\<close>

text \<open>The device never says that it has an energy meter.\<close>

definition no_emeter :: "('d, 'n) smartplug \<Rightarrow> bool" where
  "no_emeter c = (\<forall>d d'. plug_has_emeter c d \<noteq> (Inr True, d'))"

text \<open>Whatever a statement raises is a device error or an I/O error.\<close>

definition raises_caught :: "('d \<Rightarrow> (exn + 'a) \<times> 'x) \<Rightarrow> bool" where
  "raises_caught q = (\<forall>d ex x. q d = (Inl ex, x) \<longrightarrow> caught ex)"

definition device_errors_only :: "('d, 'n) smartplug \<Rightarrow> bool" where
  "device_errors_only c =
     (raises_caught (plug_sys_info c) \<and> raises_caught (plug_mac c)
      \<and> raises_caught (plug_model c) \<and> raises_caught (plug_alias c)
      \<and> raises_caught (plug_state c) \<and> raises_caught (plug_has_emeter c)
      \<and> raises_caught (plug_get_emeter_realtime c)
      \<and> raises_caught (plug_get_emeter_daily c))"

text \<open>
  The addressed child is there: either no child is addressed, or every answer to the
  system information request has a list of children with the context's id in it.
\<close>

definition child_listed :: "('d, 'n) smartplug \<Rightarrow> bool" where
  "child_listed c =
     (case plug_context c of
        None \<Rightarrow> True
      | Some ctx \<Rightarrow>
          (\<forall>d info d'. plug_sys_info c d = (Inr info, d') \<longrightarrow>
             (\<exists>cs ch. children info = Some cs
                \<and> find (\<lambda>ch. Some (child_id ch) = plug_context c) cs = Some ch)))"

text \<open>A field of the switch that a statement leaves as it is, however the statement ends.\<close>

definition keeps :: "(switch \<Rightarrow> 'x) \<Rightarrow> (switch \<times> 'd \<Rightarrow> 'r \<times> switch \<times> 'd) \<Rightarrow> bool" where
  "keeps f m = (\<forall>s d. f (fst (snd (m (s, d)))) = f s)"

subsection \<open>A device for the examples\<close>

text \<open>
  The world of the examples is a clock tick and the position of the relay. Every request
  takes one tick and fails with an I/O error at the ticks where the device is down. The
  device is a single plug, or with a context the outlet of a strip with two outlets
  \<open>79\<close> and \<open>80\<close>, of which \<open>80\<close> follows the relay. Readings are decimal text already.
  The clock shows the fifth of the month for a hundred ticks and the sixth from then on.
\<close>

definition answer :: "(nat \<Rightarrow> bool) \<Rightarrow> (bool \<Rightarrow> 'a) \<Rightarrow> nat \<times> bool \<Rightarrow> (exn + 'a) \<times> nat \<times> bool" where
  "answer down f = (\<lambda>(t, on).
     if down t then (Inl OSError, (Suc t, on)) else (Inr (f on), (Suc t, on)))"

definition switch_relay :: "(nat \<Rightarrow> bool) \<Rightarrow> bool \<Rightarrow> nat \<times> bool \<Rightarrow> (exn + unit) \<times> nat \<times> bool" where
  "switch_relay down b = (\<lambda>(t, on).
     if down t then (Inl OSError, (Suc t, on)) else (Inr (), (Suc t, b)))"

definition demo_plug ::
  "string option \<Rightarrow> bool \<Rightarrow> (nat \<Rightarrow> bool) \<Rightarrow> (int \<rightharpoonup> string)
     \<Rightarrow> (nat \<times> bool, string) smartplug" where
  "demo_plug ctx meter down daily =
     \<lparr>plug_sys_info = answer down (\<lambda>on.
        \<lparr>children = (case ctx of
             None \<Rightarrow> None
           | Some x \<Rightarrow>
               Some [\<lparr>child_id = ''79'', child_alias = ''left'', child_state = 0\<rparr>,
                     \<lparr>child_id = ''80'', child_alias = ''right'',
                      child_state = (if on then 1 else 0)\<rparr>]),
         entries = [(''sw_ver'', ''1.0.8'')]\<rparr>),
      plug_host = ''192.168.1.20'',
      plug_mac = answer down (\<lambda>on. ''50:C7:BF:00:00:01''),
      plug_model = answer down (\<lambda>on. ''HS110''),
      plug_alias = answer down (\<lambda>on. ''lamp''),
      plug_context = ctx,
      plug_state = answer down (\<lambda>on. if on then ''ON'' else ''OFF''),
      SWITCH_STATE_ON = ''ON'',
      plug_has_emeter = answer down (\<lambda>on. meter),
      plug_get_emeter_realtime = answer down (\<lambda>on.
        \<lparr>reading_power = ''12.34'', reading_total = ''1.234'',
         reading_voltage = ''120.1'', reading_current = ''0.12''\<rparr>),
      plug_get_emeter_daily = answer down (\<lambda>on. daily),
      plug_turn_on = switch_relay down True,
      plug_turn_off = switch_relay down False,
      strftime_e = (\<lambda>(t, on). if t < 100 then 5 else 6),
      str_format = (\<lambda>f v. v),
      asyncio_sleep = (\<lambda>n (t, on). (t + n, on))\<rparr>"

definition before :: "nat \<Rightarrow> nat \<Rightarrow> bool" where
  "before k t = (t < k)"

definition only_at :: "nat \<Rightarrow> nat \<Rightarrow> bool" where
  "only_at k t = (t = k)"

definition never :: "nat \<Rightarrow> bool" where
  "never t = False"

definition always :: "nat \<Rightarrow> bool" where
  "always t = True"

text \<open>The switch of a single plug after one attempt with the device up.\<close>

definition resolved_lamp :: switch where
  "resolved_lamp =
     fst (snd (attempt_update (demo_plug None True never Map.empty) (init, (0, True))))"

text \<open>
  The device cannot be reached: the system information request and the state request
  raise a device error or an I/O error whenever they are made.
\<close>

definition always_raises :: "('d \<Rightarrow> (exn + 'a) \<times> 'd) \<Rightarrow> bool" where
  "always_raises q = (\<forall>d. case fst (q d) of Inl ex \<Rightarrow> caught ex | Inr v \<Rightarrow> False)"

definition unreachable :: "('d, 'n) smartplug \<Rightarrow> bool" where
  "unreachable c = (always_raises (plug_sys_info c) \<and> always_raises (plug_state c))"

text \<open>What the host reads of a switch besides the availability.\<close>

definition snapshot ::
  "switch \<Rightarrow> (sysinfo option \<times> string option \<times> string option \<times> string option
     \<times> string option \<times> string option) \<times> bool option \<times> (string \<rightharpoonup> string)" where
  "snapshot s = (device_identity s, is_on s, device_state_attributes s)"

text \<open>The \<^verbatim>\<open>else\<close> branch of the loop of \<^verbatim>\<open>async_update\<close>.\<close>

definition exhausted :: "switch \<Rightarrow> switch" where
  "exhausted s =
     (if available s then s\<lparr>LOGGER := LOGGER s @ [Could_not_read (host s) (alias_name s)]\<rparr>
      else s)\<lparr>available := False\<rparr>"

text \<open>A field of the switch that a statement leaves as it is whenever the statement raises.\<close>

definition raise_keeps :: "(switch \<Rightarrow> 'x) \<Rightarrow> ('d, 'a) prog \<Rightarrow> bool" where
  "raise_keeps f m = (\<forall>s d ex s' d'. m (s, d) = (Inl ex, s', d') \<longrightarrow> f s' = f s)"

text \<open>The outlet \<open>81\<close> is not among the children of the strip of the examples.\<close>

definition no_history :: "int \<rightharpoonup> string" where
  "no_history = Map.empty"

definition strip_81 :: "(nat \<times> bool, string) smartplug" where
  "strip_81 = demo_plug (Some ''81'') True never no_history"

text \<open>A single plug, whose system information has no children, addressed as an outlet.\<close>

definition plug_as_outlet :: "(nat \<times> bool, string) smartplug" where
  "plug_as_outlet = (demo_plug None True never no_history)\<lparr>plug_context := Some ''80''\<rparr>"

text \<open>
  The body of \<^verbatim>\<open>attempt_update\<close> up to and including the call of \<^verbatim>\<open>update_state\<close>:
  what comes before the energy meter is looked at.
\<close>

definition body_prefix :: "('d, 'n) smartplug \<Rightarrow> ('d, unit) prog" where
  "body_prefix c = then_do (identity_step c) (\<lambda>_. update_state c)"

text \<open>
  More devices for the examples: a metered plug whose daily history has the fifth of the
  month only, and a metered plug that is down at the one tick given.
\<close>

definition history_day5 :: "int \<rightharpoonup> string" where
  "history_day5 = [5 \<mapsto> ''0.456'']"

definition metered_lamp :: "(nat \<times> bool, string) smartplug" where
  "metered_lamp = demo_plug None True never history_day5"

definition lamp_down_at :: "nat \<Rightarrow> (nat \<times> bool, string) smartplug" where
  "lamp_down_at k = demo_plug None True (only_at k) no_history"

text \<open>The switch of the metered plug after a refresh on the fifth.\<close>

definition lamp_day5 :: switch where
  "lamp_day5 = fst (host_run metered_lamp [Refresh] (init, (0, True)))"

text \<open>
  \<open>all_failed_early c k\<close>: in each of the first \<open>k\<close> iterations of the loop of
  \<^verbatim>\<open>async_update\<close> the body of \<^verbatim>\<open>attempt_update\<close> raises before \<^verbatim>\<open>update_state\<close> has
  returned.
\<close>

fun all_failed_early :: "('d, 'n) smartplug \<Rightarrow> nat \<Rightarrow> switch \<times> 'd \<Rightarrow> bool" where
  "all_failed_early c 0 (s, d) = True"
| "all_failed_early c (Suc k) (s, d) =
     (case body_prefix c (s\<lparr>is_ready := False\<rparr>, d) of
        (Inr u, sp, dp) \<Rightarrow> False
      | (Inl ex, sp, dp) \<Rightarrow>
          (case attempt_update c (s\<lparr>is_ready := False\<rparr>, d) of
             (r, s', d') \<Rightarrow> all_failed_early c k (s', asyncio_sleep c SLEEP_TIME d')))"

text \<open>
  A metered plug that tells its state but raises an I/O error whenever it is asked whether
  it has an energy meter, and the switch of the examples while it is available.
\<close>

definition meter_down :: "(nat \<times> bool, string) smartplug" where
  "meter_down =
     (demo_plug None True never no_history)\<lparr>plug_has_emeter := answer always (\<lambda>on. True)\<rparr>"

definition lamp_available :: switch where
  "lamp_available = resolved_lamp\<lparr>available := True\<rparr>"

section \<open>What a statement leaves unchanged\<close>

declare async_add_executor_job_def [simp]

lemmas prog_defs = then_do_def query_def assign_def raise_def return_def set_param_def


lemma keepsD: "keeps f m \<Longrightarrow> m (s, d) = (r, s', d') \<Longrightarrow> f s' = f s"
  unfolding keeps_def by (metis fst_conv snd_conv)

lemma keeps_then_do [intro!]:
  assumes "keeps f m" and "\<And>a. keeps f (k a)"
  shows "keeps f (then_do m k)"
  unfolding keeps_def
proof (intro allI)
  fix s d
  obtain r s1 d1 where m: "m (s, d) = (r, s1, d1)" by (cases "m (s, d)") auto
  have f1: "f s1 = f s" using keepsD[OF assms(1) m] .
  show "f (fst (snd (then_do m k (s, d)))) = f s"
  proof (cases r)
    case (Inl e)
    then show ?thesis using m f1 by (simp add: then_do_def)
  next
    case (Inr a)
    obtain r2 s2 d2 where k: "k a (s1, d1) = (r2, s2, d2)" by (cases "k a (s1, d1)") auto
    have "f s2 = f s1" using keepsD[OF assms(2) k] .
    then show ?thesis using m f1 k Inr by (simp add: then_do_def)
  qed
qed

lemma keeps_query [intro!]: "keeps f (query q)"
  by (simp add: keeps_def query_def split: prod.splits)

lemma keeps_assign [intro]: "(\<And>s. f (g s) = f s) \<Longrightarrow> keeps f (assign g)"
  by (simp add: keeps_def assign_def)

lemma keeps_raise [intro!]: "keeps f (raise e)"
  by (simp add: keeps_def raise_def)

lemma keeps_return [intro!]: "keeps f (return a)"
  by (simp add: keeps_def return_def)

lemma keeps_option [intro!]:
  "keeps f m \<Longrightarrow> (\<And>a. keeps f (k a)) \<Longrightarrow> keeps f (case x of None \<Rightarrow> m | Some a \<Rightarrow> k a)"
  by (cases x) auto

lemma keeps_if [intro!]:
  "keeps f m \<Longrightarrow> keeps f k \<Longrightarrow> keeps f (if b then m else k)"
  by simp

lemma keeps_plug_from_context [intro!]: "keeps f (plug_from_context c)"
  unfolding plug_from_context_def by (intro keeps_then_do keeps_query keeps_option keeps_raise keeps_return)

lemma keeps_resolve_identity:
  assumes "\<And>s v. f (s\<lparr>sysinfo := v\<rparr>) = f s" "\<And>s v. f (s\<lparr>host := v\<rparr>) = f s"
    "\<And>s v. f (s\<lparr>mac := v\<rparr>) = f s" "\<And>s v. f (s\<lparr>model := v\<rparr>) = f s"
    "\<And>s v. f (s\<lparr>alias_name := v\<rparr>) = f s" "\<And>s v. f (s\<lparr>device_id := v\<rparr>) = f s"
  shows "keeps f (resolve_identity c)"
  unfolding resolve_identity_def
  by (intro keeps_then_do keeps_query keeps_option keeps_plug_from_context keeps_assign assms)

lemma keeps_identity_step:
  assumes "\<And>s v. f (s\<lparr>sysinfo := v\<rparr>) = f s" "\<And>s v. f (s\<lparr>host := v\<rparr>) = f s"
    "\<And>s v. f (s\<lparr>mac := v\<rparr>) = f s" "\<And>s v. f (s\<lparr>model := v\<rparr>) = f s"
    "\<And>s v. f (s\<lparr>alias_name := v\<rparr>) = f s" "\<And>s v. f (s\<lparr>device_id := v\<rparr>) = f s"
  shows "keeps f (identity_step c)"
  using keeps_resolve_identity[of f c, OF assms]
  by (simp add: keeps_def identity_step_def return_def)

lemma keeps_update_state:
  assumes "\<And>s v. f (s\<lparr>state := v\<rparr>) = f s"
  shows "keeps f (update_state c)"
  unfolding update_state_def
  by (intro keeps_then_do keeps_query keeps_option keeps_plug_from_context keeps_assign assms)

lemma keeps_set_param:
  assumes "\<And>s v. f (s\<lparr>emeter_params := v\<rparr>) = f s"
  shows "keeps f (set_param k v)"
  unfolding set_param_def by (intro keeps_assign assms)

lemma keeps_emeter_step:
  fixes c :: "('d, 'n) smartplug"
  assumes "\<And>s v. f (s\<lparr>emeter_params := v\<rparr>) = f s"
  shows "keeps f (emeter_step c)"
proof -
  have last: "keeps f (\<lambda>(s, d). case m (strftime_e c d) of None \<Rightarrow> return () (s, d)
        | Some v \<Rightarrow> set_param ATTR_TODAY_ENERGY_KWH (str_format c ''{:.3f}'' v) (s, d))"
    for m :: "int \<rightharpoonup> 'n"
    using assms by (simp add: keeps_def return_def set_param_def assign_def split: option.splits)
  show ?thesis
    unfolding emeter_step_def
    by (intro keeps_then_do keeps_query keeps_if keeps_return keeps_set_param assms last)
qed

lemma keeps_attempt_update_body:
  assumes "keeps f (identity_step c)" "keeps f (update_state c)" "keeps f (emeter_step c)"
    and "\<And>s v. f (s\<lparr>is_ready := v\<rparr>) = f s"
  shows "keeps f (attempt_update_body c)"
  unfolding attempt_update_body_def
  by (intro keeps_then_do keeps_assign assms)

lemma keeps_attempt_update:
  assumes "keeps f (attempt_update_body c)" and "\<And>s v. f (s\<lparr>LOGGER := v\<rparr>) = f s"
  shows "keeps f (attempt_update c)"
  unfolding keeps_def
proof (intro allI)
  fix s d
  obtain r s1 d1 where b: "attempt_update_body c (s, d) = (r, s1, d1)"
    by (cases "attempt_update_body c (s, d)") auto
  have "f s1 = f s" using keepsD[OF assms(1) b] .
  then show "f (fst (snd (attempt_update c (s, d)))) = f s"
    using b assms(2) by (cases r) (simp_all add: attempt_update_def)
qed

lemma keeps_update_loop:
  assumes att: "keeps f (attempt_update c)"
    and "\<And>s v. f (s\<lparr>LOGGER := v\<rparr>) = f s" "\<And>s v. f (s\<lparr>is_ready := v\<rparr>) = f s"
    "\<And>s v. f (s\<lparr>available := v\<rparr>) = f s"
  shows "keeps f (update_loop c n)"
proof -
  have "f (fst (snd (update_loop c n (s, d)))) = f s" for s d
  proof (induction n arbitrary: s d)
    case 0
    show ?case using assms(2,4) by simp
  next
    case (Suc n)
    obtain r s1 d1 where a: "attempt_update c (s\<lparr>is_ready := False\<rparr>, d) = (r, s1, d1)"
      by (cases "attempt_update c (s\<lparr>is_ready := False\<rparr>, d)") auto
    have f1: "f s1 = f s" using keepsD[OF att a] assms(3) by simp
    show ?case
    proof (cases r)
      case (Inl ex)
      then show ?thesis using a f1 by simp
    next
      case (Inr u)
      show ?thesis
      proof (cases "is_ready s1")
        case True
        then show ?thesis using a f1 Inr assms(4) by simp
      next
        case False
        then show ?thesis using a f1 Inr Suc.IH[of s1 "asyncio_sleep c SLEEP_TIME d1"] by simp
      qed
    qed
  qed
  then show ?thesis by (simp add: keeps_def)
qed

lemma keeps_turn_on: "keeps f (turn_on c)"
  unfolding turn_on_def by (rule keeps_query)

lemma keeps_turn_off:
  assumes "\<And>s v. f (s\<lparr>state := v\<rparr>) = f s"
  shows "keeps f (turn_off c)"
  unfolding turn_off_def by (intro keeps_then_do keeps_query keeps_update_state assms)

lemma keeps_emeter_step_no_emeter:
  assumes "no_emeter c"
  shows "keeps f (emeter_step c)"
  unfolding keeps_def
proof (intro allI)
  fix s d
  obtain r d1 where h: "plug_has_emeter c d = (r, d1)" by (cases "plug_has_emeter c d") auto
  have "r \<noteq> Inr True" using assms h by (auto simp: no_emeter_def)
  then show "f (fst (snd (emeter_step c (s, d)))) = f s"
    using h by (cases r) (auto simp: emeter_step_def then_do_def query_def return_def)
qed

lemma host_step_keeps:
  assumes "keeps f (async_update c)" "keeps f (attempt_update c)" "keeps f (turn_on c)"
    "keeps f (turn_off c)"
  shows "f (fst (host_step c x (s, d))) = f s"
  using assms by (cases x) (simp_all add: keeps_def)

lemma host_run_keeps:
  assumes "keeps f (async_update c)" "keeps f (attempt_update c)" "keeps f (turn_on c)"
    "keeps f (turn_off c)"
  shows "f (fst (host_run c xs (s, d))) = f s"
proof (induction xs arbitrary: s d)
  case Nil
  show ?case by simp
next
  case (Cons x xs)
  obtain s1 d1 where st: "host_step c x (s, d) = (s1, d1)" by (cases "host_step c x (s, d)") auto
  have "f s1 = f s" using host_step_keeps[OF assms, of x s d] st by simp
  then show ?case using Cons.IH[of s1 d1] st by simp
qed

subsection \<open>The identity once resolved\<close>

lemma identity_step_resolved:
  "sysinfo_truthy (sysinfo s) \<Longrightarrow> identity_step c (s, d) = (Inr (), s, d)"
  by (simp add: identity_step_def return_def)

lemma keeps_resolved:
  fixes m :: "('d, 'a) prog"
  assumes "keeps device_identity m" and "sysinfo_truthy (sysinfo s)"
  shows "sysinfo_truthy (sysinfo (fst (snd (m (s, d)))))"
proof -
  have "device_identity (fst (snd (m (s, d)))) = device_identity s"
    using assms(1) by (simp add: keeps_def)
  then show ?thesis using assms(2) by (simp add: device_identity_def)
qed

lemma attempt_update_identity:
  assumes "sysinfo_truthy (sysinfo s)"
  shows "device_identity (fst (snd (attempt_update c (s, d)))) = device_identity s"
proof -
  let ?rest = "then_do (update_state c) (\<lambda>_. then_do (emeter_step c)
      (\<lambda>_. assign (\<lambda>s. s\<lparr>is_ready := True\<rparr>)))"
  have rest: "keeps device_identity ?rest"
    by (intro keeps_then_do keeps_update_state keeps_emeter_step keeps_assign)
      (simp_all add: device_identity_def)
  have body: "attempt_update_body c (s, d) = ?rest (s, d)"
    using identity_step_resolved[OF assms, of c d]
    by (simp add: attempt_update_body_def then_do_def)
  obtain r s1 d1 where b: "?rest (s, d) = (r, s1, d1)" by (cases "?rest (s, d)") auto
  have "device_identity s1 = device_identity s" using keepsD[OF rest b] .
  then show ?thesis
    using b body by (cases r) (simp_all add: attempt_update_def device_identity_def)
qed

lemma update_loop_identity:
  "sysinfo_truthy (sysinfo s) \<Longrightarrow>
     device_identity (fst (snd (update_loop c n (s, d)))) = device_identity s"
proof (induction n arbitrary: s d)
  case 0
  show ?case by (simp add: device_identity_def)
next
  case (Suc n)
  let ?s0 = "s\<lparr>is_ready := False\<rparr>"
  have t0: "sysinfo_truthy (sysinfo ?s0)" using Suc.prems by simp
  obtain r s1 d1 where a: "attempt_update c (?s0, d) = (r, s1, d1)"
    by (cases "attempt_update c (?s0, d)") auto
  have i1: "device_identity s1 = device_identity s"
    using attempt_update_identity[OF t0, of c d] a by (simp add: device_identity_def)
  then have t1: "sysinfo_truthy (sysinfo s1)"
    using Suc.prems by (simp add: device_identity_def)
  show ?case
  proof (cases r)
    case (Inl ex)
    then show ?thesis using a i1 by simp
  next
    case (Inr u)
    show ?thesis
    proof (cases "is_ready s1")
      case True
      then show ?thesis using a i1 Inr by (simp add: device_identity_def)
    next
      case False
      then show ?thesis
        using a i1 Inr Suc.IH[OF t1, of "asyncio_sleep c SLEEP_TIME d1"] by simp
    qed
  qed
qed

lemma host_step_identity:
  assumes "sysinfo_truthy (sysinfo s)"
  shows "device_identity (fst (host_step c x (s, d))) = device_identity s"
proof (cases x)
  case Refresh
  then show ?thesis using update_loop_identity[OF assms, of c MAX_ATTEMPTS d]
    by (simp add: async_update_def)
next
  case Attempt
  then show ?thesis using attempt_update_identity[OF assms, of c d] by simp
next
  case Turn_on
  have "keeps device_identity (turn_on c)" by (rule keeps_turn_on)
  then show ?thesis using Turn_on by (simp add: keeps_def)
next
  case Turn_off
  have "keeps device_identity (turn_off c)"
    by (rule keeps_turn_off) (simp add: device_identity_def)
  then show ?thesis using Turn_off by (simp add: keeps_def)
next
  case (Wait n)
  then show ?thesis by simp
qed

subsection \<open>The loop after failed attempts\<close>

lemma update_loop_after_failures:
  "all_failed c k (s, d) \<Longrightarrow>
     update_loop c (k + n) (s, d) = update_loop c n (after_failures c k (s, d))"
proof (induction k arbitrary: s d)
  case 0
  show ?case by simp
next
  case (Suc k)
  obtain r s1 d1 where a: "attempt_update c (s\<lparr>is_ready := False\<rparr>, d) = (r, s1, d1)"
    by (cases "attempt_update c (s\<lparr>is_ready := False\<rparr>, d)") auto
  from Suc.prems a obtain u where r: "r = Inr u" and nr: "\<not> is_ready s1"
    and rest: "all_failed c k (s1, asyncio_sleep c SLEEP_TIME d1)"
    by (cases r) auto
  show ?case using a r nr Suc.IH[OF rest] by simp
qed




subsection \<open>A device out of reach\<close>

lemma always_raisesD:
  assumes "always_raises q"
  obtains ex d' where "q d = (Inl ex, d')" and "caught ex"
proof -
  obtain r d' where q: "q d = (r, d')" by (cases "q d") auto
  from assms have "case fst (q d) of Inl ex \<Rightarrow> caught ex | Inr v \<Rightarrow> False"
    unfolding always_raises_def by (rule spec)
  then have "case r of Inl ex \<Rightarrow> caught ex | Inr v \<Rightarrow> False"
    using q by simp
  then show ?thesis using q that by (cases r) auto
qed

lemma attempt_update_unreachable:
  assumes "unreachable c"
  shows "\<exists>l d'. attempt_update c (s, d) = (Inr (), s\<lparr>LOGGER := l\<rparr>, d')"
proof -
  from assms have si: "always_raises (plug_sys_info c)" and st: "always_raises (plug_state c)"
    by (simp_all add: unreachable_def)
  obtain e1 d1 where q1: "plug_sys_info c d = (Inl e1, d1)" and c1: "caught e1"
    using always_raisesD[OF si, of d] by blast
  obtain e2 d2 where q2: "plug_state c d = (Inl e2, d2)" and c2: "caught e2"
    using always_raisesD[OF st, of d] by blast
  have "\<exists>ex d'. attempt_update_body c (s, d) = (Inl ex, s, d') \<and> caught ex"
  proof (cases "sysinfo_truthy (sysinfo s)")
    case False
    then have "attempt_update_body c (s, d) = (Inl e1, s, d1)"
      using q1 by (simp add: attempt_update_body_def identity_step_def resolve_identity_def
          then_do_def query_def)
    then show ?thesis using c1 by blast
  next
    case True
    show ?thesis
    proof (cases "plug_context c")
      case None
      then have "attempt_update_body c (s, d) = (Inl e2, s, d2)"
        using q2 True by (simp add: attempt_update_body_def identity_step_def update_state_def
            then_do_def query_def return_def)
      then show ?thesis using c2 by blast
    next
      case (Some ctx)
      then have "attempt_update_body c (s, d) = (Inl e1, s, d1)"
        using q1 True by (simp add: attempt_update_body_def identity_step_def update_state_def
            plug_from_context_def then_do_def query_def return_def)
      then show ?thesis using c1 by blast
    qed
  qed
  then obtain ex d' where "attempt_update_body c (s, d) = (Inl ex, s, d')" and "caught ex"
    by blast
  then have "attempt_update c (s, d)
      = (Inr (), s\<lparr>LOGGER := LOGGER s @ [Retrying SLEEP_TIME (plug_host c) (alias_name s) ex]\<rparr>, d')"
    by (simp add: attempt_update_def caught_def)
  then show ?thesis by blast
qed

lemma update_loop_unreachable:
  assumes "unreachable c"
  shows "fst (update_loop c n (s, d)) = Some (Inr ())
     \<and> snapshot (fst (snd (update_loop c n (s, d)))) = snapshot s
     \<and> \<not> available (fst (snd (update_loop c n (s, d))))"
proof (induction n arbitrary: s d)
  case 0
  show ?case
    by (simp add: snapshot_def device_identity_def is_on_def device_state_attributes_def)
next
  case (Suc n)
  obtain l d' where a: "attempt_update c (s\<lparr>is_ready := False\<rparr>, d)
      = (Inr (), s\<lparr>is_ready := False, LOGGER := l\<rparr>, d')"
    using attempt_update_unreachable[OF assms, of "s\<lparr>is_ready := False\<rparr>" d] by auto
  have "snapshot (s\<lparr>is_ready := False, LOGGER := l\<rparr>) = snapshot s"
    by (simp add: snapshot_def device_identity_def is_on_def device_state_attributes_def)
  then show ?case
    using a Suc.IH[of "s\<lparr>is_ready := False, LOGGER := l\<rparr>" "asyncio_sleep c SLEEP_TIME d'"]
    by simp
qed

subsection \<open>Statements that raise only what the handler catches\<close>

lemma raises_caughtD: "raises_caught q \<Longrightarrow> q d = (Inl ex, x) \<Longrightarrow> caught ex"
  unfolding raises_caught_def by blast

lemma raises_caught_then_do:
  assumes "raises_caught m" and "\<And>a. raises_caught (k a)"
  shows "raises_caught (then_do m k)"
  unfolding raises_caught_def
proof (intro allI impI)
  fix sd ex x
  assume t: "then_do m k sd = (Inl ex, x)"
  obtain r sd1 where m: "m sd = (r, sd1)" by (cases "m sd") auto
  show "caught ex"
  proof (cases r)
    case (Inl e)
    then have "m sd = (Inl ex, x)" using t m by (simp add: then_do_def)
    then show ?thesis using assms(1) by (rule raises_caughtD[rotated])
  next
    case (Inr a)
    then have "k a sd1 = (Inl ex, x)" using t m by (simp add: then_do_def)
    then show ?thesis using assms(2)[of a] by (rule raises_caughtD[rotated])
  qed
qed

lemma raises_caught_query:
  assumes "raises_caught q"
  shows "raises_caught (query q)"
  unfolding raises_caught_def
proof (intro allI impI)
  fix sd :: "switch \<times> 'a" and ex x
  assume p: "query q sd = (Inl ex, x)"
  obtain s d where sd: "sd = (s, d)" by (cases sd) auto
  obtain r d1 where q: "q d = (r, d1)" by (cases "q d") auto
  have "r = Inl ex" using p q sd by (simp add: query_def)
  then show "caught ex" using raises_caughtD[OF assms] q by blast
qed

lemma raises_caught_assign: "raises_caught (assign g)"
  by (simp add: raises_caught_def assign_def)

lemma raises_caught_return: "raises_caught (return a)"
  by (simp add: raises_caught_def return_def)

lemma raises_caught_set_param: "raises_caught (set_param k v)"
  by (simp add: set_param_def raises_caught_assign)

lemma raises_caught_plug_from_context:
  assumes "raises_caught (plug_sys_info c)" and "child_listed c" and "plug_context c = Some ctx"
  shows "raises_caught (plug_from_context c)"
  unfolding raises_caught_def
proof (intro allI impI)
  fix sd :: "switch \<times> 'a" and ex x
  assume p: "plug_from_context c sd = (Inl ex, x)"
  obtain s d where sd: "sd = (s, d)" by (cases sd) auto
  obtain r d1 where q: "plug_sys_info c d = (r, d1)" by (cases "plug_sys_info c d") auto
  show "caught ex"
  proof (cases r)
    case (Inl e)
    then have "e = ex"
      using p q sd by (simp add: plug_from_context_def then_do_def query_def)
    then show ?thesis using raises_caughtD[OF assms(1)] q Inl by blast
  next
    case (Inr info)
    have "\<exists>cs ch. children info = Some cs \<and> find (\<lambda>ch. child_id ch = ctx) cs = Some ch"
      using assms(2,3) q Inr by (simp add: child_listed_def) blast
    then obtain cs ch where "children info = Some cs"
      and "find (\<lambda>ch. child_id ch = ctx) cs = Some ch"
      by blast
    then have "plug_from_context c sd = (Inr ch, s, d1)"
      using q sd Inr assms(3)
      by (simp add: plug_from_context_def then_do_def query_def return_def)
    then show ?thesis using p by simp
  qed
qed

lemma raises_caught_update_state:
  assumes "device_errors_only c" and "child_listed c"
  shows "raises_caught (update_state c)"
proof (cases "plug_context c")
  case None
  have "raises_caught (plug_state c)" using assms(1) by (simp add: device_errors_only_def)
  then show ?thesis
    using None unfolding update_state_def
    by (simp add: raises_caught_then_do raises_caught_query raises_caught_assign)
next
  case (Some ctx)
  have "raises_caught (plug_sys_info c)" using assms(1) by (simp add: device_errors_only_def)
  then have "raises_caught (plug_from_context c)"
    using assms(2) Some by (rule raises_caught_plug_from_context)
  then show ?thesis
    using Some unfolding update_state_def
    by (simp add: raises_caught_then_do raises_caught_assign)
qed

lemma raises_caught_resolve_identity:
  assumes "device_errors_only c" and "child_listed c"
  shows "raises_caught (resolve_identity c)"
proof -
  from assms(1) have q: "raises_caught (plug_sys_info c)" "raises_caught (plug_mac c)"
    "raises_caught (plug_model c)" "raises_caught (plug_alias c)"
    by (simp_all add: device_errors_only_def)
  have last: "raises_caught (case plug_context c of
         None \<Rightarrow>
           then_do (query (plug_alias c)) (\<lambda>a.
           then_do (assign (\<lambda>s. s\<lparr>alias_name := Some a\<rparr>)) (\<lambda>_.
             assign (\<lambda>s. s\<lparr>device_id := mac s\<rparr>)))
       | Some ctx \<Rightarrow>
           then_do (plug_from_context c) (\<lambda>ch.
           then_do (assign (\<lambda>s. s\<lparr>alias_name := Some (child_alias ch)\<rparr>)) (\<lambda>_.
             assign (\<lambda>s. s\<lparr>device_id := Some ctx\<rparr>))))"
  proof (cases "plug_context c")
    case None
    then show ?thesis
      by (simp add: raises_caught_then_do raises_caught_query raises_caught_assign q)
  next
    case (Some ctx)
    have "raises_caught (plug_from_context c)"
      using q(1) assms(2) Some by (rule raises_caught_plug_from_context)
    then show ?thesis
      using Some by (simp add: raises_caught_then_do raises_caught_assign)
  qed
  show ?thesis
    unfolding resolve_identity_def
    by (intro raises_caught_then_do raises_caught_query raises_caught_assign q last)
qed

lemma raises_caught_identity_step:
  assumes "device_errors_only c" and "child_listed c"
  shows "raises_caught (identity_step c)"
  unfolding raises_caught_def
proof (intro allI impI)
  fix sd :: "switch \<times> 'a" and ex x
  assume p: "identity_step c sd = (Inl ex, x)"
  obtain s d where sd: "sd = (s, d)" by (cases sd) auto
  have "resolve_identity c (s, d) = (Inl ex, x)"
    using p sd by (simp add: identity_step_def return_def split: if_splits)
  then show "caught ex" using raises_caughtD[OF raises_caught_resolve_identity[OF assms]] by blast
qed

lemma raises_caught_emeter_step:
  fixes c :: "('d, 'n) smartplug"
  assumes "device_errors_only c"
  shows "raises_caught (emeter_step c)"
proof -
  from assms have q: "raises_caught (plug_has_emeter c)"
    "raises_caught (plug_get_emeter_realtime c)" "raises_caught (plug_get_emeter_daily c)"
    by (simp_all add: device_errors_only_def)
  have last: "raises_caught (\<lambda>(s, d). case m (strftime_e c d) of None \<Rightarrow> return () (s, d)
        | Some v \<Rightarrow> set_param ATTR_TODAY_ENERGY_KWH (str_format c ''{:.3f}'' v) (s, d))"
    for m :: "int \<rightharpoonup> 'n"
    by (simp add: raises_caught_def return_def set_param_def assign_def split: option.splits)
  have inner: "raises_caught (if has then
         then_do (query (plug_get_emeter_realtime c)) (\<lambda>emeter_readings.
         then_do (set_param ATTR_CURRENT_POWER_W
                    (str_format c ''{:.2f}'' (reading_power emeter_readings))) (\<lambda>_.
         then_do (set_param ATTR_TOTAL_ENERGY_KWH
                    (str_format c ''{:.3f}'' (reading_total emeter_readings))) (\<lambda>_.
         then_do (set_param ATTR_VOLTAGE
                    (str_format c ''{:.1f}'' (reading_voltage emeter_readings))) (\<lambda>_.
         then_do (set_param ATTR_CURRENT_A
                    (str_format c ''{:.2f}'' (reading_current emeter_readings))) (\<lambda>_.
         then_do (query (plug_get_emeter_daily c)) (\<lambda>emeter_statics.
           (\<lambda>(s, d).
              case emeter_statics (strftime_e c d) of
                None \<Rightarrow> return () (s, d)
              | Some v \<Rightarrow>
                  set_param ATTR_TODAY_ENERGY_KWH (str_format c ''{:.3f}'' v) (s, d))))))))
       else return ())" for has
  proof (cases has)
    case True
    show ?thesis
      unfolding if_P[OF True]
      by (intro raises_caught_then_do raises_caught_query raises_caught_set_param q last)
  next
    case False
    then show ?thesis by (simp add: raises_caught_return)
  qed
  show ?thesis
    unfolding emeter_step_def
    by (intro raises_caught_then_do raises_caught_query q inner)
qed

lemma raises_caught_attempt_update_body:
  assumes "device_errors_only c" and "child_listed c"
  shows "raises_caught (attempt_update_body c)"
  unfolding attempt_update_body_def
  by (intro raises_caught_then_do raises_caught_identity_step raises_caught_update_state
      raises_caught_emeter_step raises_caught_assign assms)

lemma attempt_update_returns:
  assumes "device_errors_only c" and "child_listed c"
  shows "fst (attempt_update c sd) = Inr ()"
proof -
  obtain r s1 d1 where b: "attempt_update_body c sd = (r, s1, d1)"
    by (cases "attempt_update_body c sd") auto
  show ?thesis
  proof (cases r)
    case (Inl ex)
    then have "caught ex"
      using raises_caughtD[OF raises_caught_attempt_update_body[OF assms]] b by blast
    then show ?thesis using b Inl by (simp add: attempt_update_def caught_def)
  next
    case (Inr u)
    then show ?thesis using b by (simp add: attempt_update_def)
  qed
qed

lemma update_loop_returns:
  assumes "device_errors_only c" and "child_listed c"
  shows "fst (update_loop c n (s, d)) = Some (Inr ())"
proof (induction n arbitrary: s d)
  case 0
  show ?case by simp
next
  case (Suc n)
  obtain r s1 d1 where a: "attempt_update c (s\<lparr>is_ready := False\<rparr>, d) = (r, s1, d1)"
    by (cases "attempt_update c (s\<lparr>is_ready := False\<rparr>, d)") auto
  have "r = Inr ()"
    using attempt_update_returns[OF assms, of "(s\<lparr>is_ready := False\<rparr>, d)"] a by simp
  then show ?case using a Suc.IH[of s1 "asyncio_sleep c SLEEP_TIME d1"] by simp
qed

subsection \<open>What a raising statement leaves unchanged\<close>

lemma keeps_raise_keeps: "keeps f m \<Longrightarrow> raise_keeps f m"
  unfolding raise_keeps_def by (auto dest: keepsD)

lemma raise_keepsD: "raise_keeps f m \<Longrightarrow> m (s, d) = (Inl ex, s', d') \<Longrightarrow> f s' = f s"
  unfolding raise_keeps_def by blast

lemma raise_keeps_then_do:
  assumes "keeps f m" and "\<And>a. raise_keeps f (k a)"
  shows "raise_keeps f (then_do m k)"
  unfolding raise_keeps_def
proof (intro allI impI)
  fix s d ex s' d'
  assume t: "then_do m k (s, d) = (Inl ex, s', d')"
  obtain r s1 d1 where m: "m (s, d) = (r, s1, d1)" by (cases "m (s, d)") auto
  have f1: "f s1 = f s" using keepsD[OF assms(1) m] .
  show "f s' = f s"
  proof (cases r)
    case (Inl e)
    then show ?thesis using t m f1 by (simp add: then_do_def)
  next
    case (Inr a)
    then have "k a (s1, d1) = (Inl ex, s', d')" using t m by (simp add: then_do_def)
    then show ?thesis using raise_keepsD[OF assms(2)] f1 by metis
  qed
qed

lemma raise_keeps_assign: "raise_keeps f (assign g)"
  by (simp add: raise_keeps_def assign_def)

lemma raise_keeps_is_ready_body: "raise_keeps is_ready (attempt_update_body c)"
  unfolding attempt_update_body_def
  by (intro raise_keeps_then_do raise_keeps_assign keeps_identity_step keeps_update_state
      keeps_emeter_step) simp_all

lemma then_do_assoc: "then_do (then_do m k) h = then_do m (\<lambda>a. then_do (k a) h)"
  by (auto simp: then_do_def fun_eq_iff split: prod.splits sum.splits)

lemma attempt_update_body_prefix:
  "attempt_update_body c = then_do (body_prefix c)
     (\<lambda>_. then_do (emeter_step c) (\<lambda>_. assign (\<lambda>s. s\<lparr>is_ready := True\<rparr>)))"
  by (simp add: attempt_update_body_def body_prefix_def then_do_assoc)

lemma attempt_update_of_body:
  assumes "attempt_update_body c sd = (r, s1, d1)"
  shows "\<exists>l. fst (snd (attempt_update c sd)) = s1\<lparr>LOGGER := l\<rparr>"
proof (cases r)
  case (Inl ex)
  show ?thesis
  proof (cases "ex = SmartDeviceException \<or> ex = OSError")
    case True
    then have "fst (snd (attempt_update c sd))
        = s1\<lparr>LOGGER := LOGGER s1 @ [Retrying SLEEP_TIME (plug_host c) (alias_name s1) ex]\<rparr>"
      using assms Inl by (auto simp: attempt_update_def)
    then show ?thesis by blast
  next
    case False
    then have "fst (snd (attempt_update c sd)) = s1\<lparr>LOGGER := LOGGER s1\<rparr>"
      using assms Inl by (simp add: attempt_update_def)
    then show ?thesis by blast
  qed
next
  case (Inr u)
  then have "fst (snd (attempt_update c sd)) = s1\<lparr>LOGGER := LOGGER s1\<rparr>"
    using assms by (simp add: attempt_update_def)
  then show ?thesis by blast
qed

lemma raise_keeps_then_do_last:
  assumes "raise_keeps f m" and "\<And>a sd ex sd'. k a sd \<noteq> (Inl ex, sd')"
  shows "raise_keeps f (then_do m k)"
  unfolding raise_keeps_def
proof (intro allI impI)
  fix s d ex s' d'
  assume t: "then_do m k (s, d) = (Inl ex, s', d')"
  obtain r s1 d1 where m: "m (s, d) = (r, s1, d1)" by (cases "m (s, d)") auto
  show "f s' = f s"
  proof (cases r)
    case (Inl e)
    then have "m (s, d) = (Inl ex, s', d')" using t m by (simp add: then_do_def)
    then show ?thesis using raise_keepsD[OF assms(1)] by blast
  next
    case (Inr a)
    then have "k a (s1, d1) = (Inl ex, s', d')" using t m by (simp add: then_do_def)
    then show ?thesis using assms(2) by blast
  qed
qed

lemma raise_keeps_update_state: "raise_keeps f (update_state c)"
proof (cases "plug_context c")
  case None
  then show ?thesis
    unfolding update_state_def
    by (simp add: raise_keeps_then_do keeps_query raise_keeps_assign)
next
  case (Some ctx)
  then show ?thesis
    unfolding update_state_def
    by (simp add: raise_keeps_then_do keeps_plug_from_context raise_keeps_assign)
qed

lemma raise_keeps_state_body_prefix: "raise_keeps state (body_prefix c)"
  unfolding body_prefix_def
  by (intro raise_keeps_then_do keeps_identity_step raise_keeps_update_state) simp_all

lemma keeps_body_prefix:
  assumes "\<And>s v. f (s\<lparr>sysinfo := v\<rparr>) = f s" "\<And>s v. f (s\<lparr>host := v\<rparr>) = f s"
    "\<And>s v. f (s\<lparr>mac := v\<rparr>) = f s" "\<And>s v. f (s\<lparr>model := v\<rparr>) = f s"
    "\<And>s v. f (s\<lparr>alias_name := v\<rparr>) = f s" "\<And>s v. f (s\<lparr>device_id := v\<rparr>) = f s"
    "\<And>s v. f (s\<lparr>state := v\<rparr>) = f s"
  shows "keeps f (body_prefix c)"
  unfolding body_prefix_def
  by (intro keeps_then_do keeps_identity_step keeps_update_state assms)

lemma keeps_today_set_param:
  "k \<noteq> ATTR_TODAY_ENERGY_KWH \<Longrightarrow>
     keeps (\<lambda>s. emeter_params s ATTR_TODAY_ENERGY_KWH) (set_param k v)"
  by (simp add: keeps_def set_param_def assign_def)

lemma raise_keeps_today_emeter_step:
  fixes c :: "('d, 'n) smartplug"
  shows "raise_keeps (\<lambda>s. emeter_params s ATTR_TODAY_ENERGY_KWH) (emeter_step c)"
proof -
  let ?f = "\<lambda>s. emeter_params s ATTR_TODAY_ENERGY_KWH"
  have last: "raise_keeps ?f (\<lambda>(s, d). case m (strftime_e c d) of None \<Rightarrow> return () (s, d)
        | Some v \<Rightarrow> set_param ATTR_TODAY_ENERGY_KWH (str_format c ''{:.3f}'' v) (s, d))"
    for m :: "int \<rightharpoonup> 'n"
    by (simp add: raise_keeps_def return_def set_param_def assign_def split: option.splits)
  have ne: "ATTR_CURRENT_POWER_W \<noteq> ATTR_TODAY_ENERGY_KWH"
    "ATTR_TOTAL_ENERGY_KWH \<noteq> ATTR_TODAY_ENERGY_KWH"
    "ATTR_VOLTAGE \<noteq> ATTR_TODAY_ENERGY_KWH" "ATTR_CURRENT_A \<noteq> ATTR_TODAY_ENERGY_KWH"
    by (simp_all add: ATTR_CURRENT_POWER_W_def ATTR_TOTAL_ENERGY_KWH_def ATTR_VOLTAGE_def
        ATTR_CURRENT_A_def ATTR_TODAY_ENERGY_KWH_def)
  have ret: "raise_keeps ?f (return ())"
    by (simp add: raise_keeps_def return_def)
  have inner: "raise_keeps ?f (if has then
         then_do (query (plug_get_emeter_realtime c)) (\<lambda>emeter_readings.
         then_do (set_param ATTR_CURRENT_POWER_W
                    (str_format c ''{:.2f}'' (reading_power emeter_readings))) (\<lambda>_.
         then_do (set_param ATTR_TOTAL_ENERGY_KWH
                    (str_format c ''{:.3f}'' (reading_total emeter_readings))) (\<lambda>_.
         then_do (set_param ATTR_VOLTAGE
                    (str_format c ''{:.1f}'' (reading_voltage emeter_readings))) (\<lambda>_.
         then_do (set_param ATTR_CURRENT_A
                    (str_format c ''{:.2f}'' (reading_current emeter_readings))) (\<lambda>_.
         then_do (query (plug_get_emeter_daily c)) (\<lambda>emeter_statics.
           (\<lambda>(s, d).
              case emeter_statics (strftime_e c d) of
                None \<Rightarrow> return () (s, d)
              | Some v \<Rightarrow>
                  set_param ATTR_TODAY_ENERGY_KWH (str_format c ''{:.3f}'' v) (s, d))))))))
       else return ())" for has
  proof (cases has)
    case True
    show ?thesis
      unfolding if_P[OF True]
      by (intro raise_keeps_then_do keeps_query keeps_today_set_param ne last)
  next
    case False
    then show ?thesis using ret by simp
  qed
  show ?thesis
    unfolding emeter_step_def
    by (intro raise_keeps_then_do keeps_query inner)
qed

lemma raise_keeps_today_body:
  "raise_keeps (\<lambda>s. emeter_params s ATTR_TODAY_ENERGY_KWH) (attempt_update_body c)"
proof -
  have a: "assign g sd \<noteq> (Inl ex, sd')" for g :: "switch \<Rightarrow> switch" and sd :: "switch \<times> 'a"
    and ex sd'
    by (cases sd) (simp add: assign_def)
  show ?thesis
    unfolding attempt_update_body_def
    by (intro raise_keeps_then_do raise_keeps_then_do_last raise_keeps_today_emeter_step
        keeps_identity_step keeps_update_state a) simp_all
qed

subsection \<open>What a cycle of failed attempts leaves unchanged\<close>

lemma attempt_update_body_returns_ready:
  "attempt_update_body c (s, d) = (Inr u, s', d') \<Longrightarrow> is_ready s'"
  by (auto simp: attempt_update_body_prefix then_do_def assign_def
      split: prod.splits sum.splits)

lemma after_failures_identity:
  "sysinfo_truthy (sysinfo s) \<Longrightarrow>
     device_identity (fst (after_failures c k (s, d))) = device_identity s"
proof (induction k arbitrary: s d)
  case 0
  show ?case by simp
next
  case (Suc k)
  let ?s0 = "s\<lparr>is_ready := False\<rparr>"
  have t0: "sysinfo_truthy (sysinfo ?s0)" using Suc.prems by simp
  obtain r s1 d1 where a: "attempt_update c (?s0, d) = (r, s1, d1)"
    by (cases "attempt_update c (?s0, d)") auto
  have i1: "device_identity s1 = device_identity s"
    using attempt_update_identity[OF t0, of c d] a by (simp add: device_identity_def)
  then have t1: "sysinfo_truthy (sysinfo s1)"
    using Suc.prems by (simp add: device_identity_def)
  show ?case
    using a i1 Suc.IH[OF t1, of "asyncio_sleep c SLEEP_TIME d1"] by simp
qed

lemma after_failures_today:
  "all_failed c k (s, d) \<Longrightarrow>
     emeter_params (fst (after_failures c k (s, d))) ATTR_TODAY_ENERGY_KWH
       = emeter_params s ATTR_TODAY_ENERGY_KWH"
proof (induction k arbitrary: s d)
  case 0
  show ?case by simp
next
  case (Suc k)
  let ?s0 = "s\<lparr>is_ready := False\<rparr>"
  obtain r s1 d1 where a: "attempt_update c (?s0, d) = (r, s1, d1)"
    by (cases "attempt_update c (?s0, d)") auto
  from Suc.prems a obtain u where r: "r = Inr u" and nr: "\<not> is_ready s1"
    and rest: "all_failed c k (s1, asyncio_sleep c SLEEP_TIME d1)"
    by (cases r) auto
  obtain rb sb db where b: "attempt_update_body c (?s0, d) = (rb, sb, db)"
    by (cases "attempt_update_body c (?s0, d)") auto
  obtain l where "fst (snd (attempt_update c (?s0, d))) = sb\<lparr>LOGGER := l\<rparr>"
    using attempt_update_of_body[OF b] by blast
  then have s1: "s1 = sb\<lparr>LOGGER := l\<rparr>" using a by simp
  have "rb \<noteq> Inr v" for v
    using attempt_update_body_returns_ready[of c ?s0 d v sb db] b nr s1 by auto
  then obtain ex where "rb = Inl ex" by (cases rb) auto
  then have "emeter_params sb ATTR_TODAY_ENERGY_KWH = emeter_params ?s0 ATTR_TODAY_ENERGY_KWH"
    using raise_keepsD[OF raise_keeps_today_body, of c ?s0 d ex sb db] b by simp
  then have "emeter_params s1 ATTR_TODAY_ENERGY_KWH = emeter_params s ATTR_TODAY_ENERGY_KWH"
    using s1 by simp
  then show ?case using a Suc.IH[OF rest] by simp
qed

lemma after_failures_early:
  "all_failed_early c k (s, d) \<Longrightarrow>
     state (fst (after_failures c k (s, d))) = state s
     \<and> emeter_params (fst (after_failures c k (s, d))) = emeter_params s"
proof (induction k arbitrary: s d)
  case 0
  show ?case by simp
next
  case (Suc k)
  let ?s0 = "s\<lparr>is_ready := False\<rparr>"
  obtain r s1 d1 where a: "attempt_update c (?s0, d) = (r, s1, d1)"
    by (cases "attempt_update c (?s0, d)") auto
  obtain rp sp dp where p: "body_prefix c (?s0, d) = (rp, sp, dp)"
    by (cases "body_prefix c (?s0, d)") auto
  from Suc.prems a p obtain ex where rp: "rp = Inl ex"
    and rest: "all_failed_early c k (s1, asyncio_sleep c SLEEP_TIME d1)"
    by (cases rp) auto
  have st: "state sp = state ?s0"
    using raise_keepsD[OF raise_keeps_state_body_prefix, of c ?s0 d ex sp dp] p rp by simp
  have "keeps emeter_params (body_prefix c)" by (rule keeps_body_prefix) simp_all
  then have em: "emeter_params sp = emeter_params ?s0" using p by (rule keepsD)
  have b: "attempt_update_body c (?s0, d) = (Inl ex, sp, dp)"
    using p rp by (simp add: attempt_update_body_prefix then_do_def)
  obtain l where "fst (snd (attempt_update c (?s0, d))) = sp\<lparr>LOGGER := l\<rparr>"
    using attempt_update_of_body[OF b] by blast
  then have "s1 = sp\<lparr>LOGGER := l\<rparr>" using a by simp
  then have "state s1 = state s" "emeter_params s1 = emeter_params s"
    using st em by simp_all
  then show ?case using a Suc.IH[OF rest] by simp
qed

section \<open>The claims\<close>

text \<open>
  Claim C7. A device that never advertises an energy meter: whatever the host calls, and
  how often, the meter readings of a freshly created switch stay the empty dictionary.
\<close>


theorem no_emeter_params_stay_empty:
  assumes "no_emeter c"
  shows "emeter_params (fst (host_run c calls (init, d))) = Map.empty"
proof -
  have body: "keeps emeter_params (attempt_update_body c)"
    by (intro keeps_attempt_update_body keeps_identity_step keeps_update_state
        keeps_emeter_step_no_emeter assms) simp_all
  have att: "keeps emeter_params (attempt_update c)"
    by (rule keeps_attempt_update[OF body]) simp
  have upd: "keeps emeter_params (async_update c)"
    unfolding async_update_def by (rule keeps_update_loop[OF att]) simp_all
  have off: "keeps emeter_params (turn_off c)"
    by (rule keeps_turn_off) simp
  have "emeter_params (fst (host_run c calls (init, d))) = emeter_params init"
    by (rule host_run_keeps[OF upd att keeps_turn_on off])
  then show ?thesis by (simp add: init_def)
qed

theorem no_emeter_params_stay_empty_witness:
  "no_emeter (demo_plug None False never Map.empty)
   \<and> emeter_params (fst (host_run (demo_plug None False never Map.empty)
        [Refresh, Turn_off, Wait 30, Refresh, Turn_on, Attempt] (init, (0, True)))) = Map.empty
   \<and> available (fst (host_run (demo_plug None False never Map.empty)
        [Refresh, Turn_off, Wait 30, Refresh, Turn_on, Attempt] (init, (0, True))))"
proof -
  have h: "no_emeter (demo_plug None False never Map.empty)"
    by (simp add: no_emeter_def demo_plug_def answer_def split: prod.splits)
  have a: "available (fst (host_run (demo_plug None False never Map.empty)
        [Refresh, Turn_off, Wait 30, Refresh, Turn_on, Attempt] (init, (0, True))))"
    by code_simp
  show ?thesis
    using h a no_emeter_params_stay_empty[OF h,
        of "[Refresh, Turn_off, Wait 30, Refresh, Turn_on, Attempt]" "(0, True)"]
    by simp
qed

text \<open>
  Claim C4. Once the switch holds a system information record (the test
  \<^verbatim>\<open>if not self._sysinfo\<close> fails), no sequence of calls of the host, attempts and
  whole refresh cycles included, changes the host address, the hardware address, the
  model, the alias, the unique id or the record itself.
\<close>


theorem identity_resolved_once:
  assumes "sysinfo_truthy (sysinfo s)"
  shows "device_identity (fst (host_run c calls (s, d))) = device_identity s"
  using assms
proof (induction calls arbitrary: s d)
  case Nil
  show ?case by simp
next
  case (Cons x xs)
  obtain s1 d1 where st: "host_step c x (s, d) = (s1, d1)"
    by (cases "host_step c x (s, d)") auto
  have i1: "device_identity s1 = device_identity s"
    using host_step_identity[OF Cons.prems, of c x d] st by simp
  then have "sysinfo_truthy (sysinfo s1)"
    using Cons.prems by (simp add: device_identity_def)
  then show ?case using Cons.IH[of s1 d1] st i1 by simp
qed


theorem identity_resolved_once_witness:
  "sysinfo_truthy (sysinfo resolved_lamp)
   \<and> device_identity (fst (host_run (demo_plug (Some ''80'') True never Map.empty)
        [Attempt, Refresh, Attempt] (resolved_lamp, (0, False))))
     = device_identity resolved_lamp
   \<and> alias_name resolved_lamp = Some ''lamp''"
proof -
  have h: "sysinfo_truthy (sysinfo resolved_lamp)" by code_simp
  have a: "alias_name resolved_lamp = Some ''lamp''" by code_simp
  show ?thesis
    using h a identity_resolved_once[OF h, of "demo_plug (Some ''80'') True never Map.empty"
        "[Attempt, Refresh, Attempt]" "(0, False)"]
    by simp
qed

text \<open>
  Claim C9. \<^verbatim>\<open>turn_on\<close> is the turn-on command of the device client and nothing else:
  its outcome and its effect on the world are those of the command, and every attribute
  of the switch is as before.
\<close>


theorem turn_on_changes_no_attribute:
  "turn_on c (s, d) = (fst (plug_turn_on c d), s, snd (plug_turn_on c d))"
  by (simp add: turn_on_def query_def split: prod.splits)

text \<open>
  Claim C5. The derivation of the on/off state: without a context it is the comparison
  of the device's state with \<open>SWITCH_STATE_ON\<close>; with a context it is the comparison of
  the state of the first child with that id with the number 1. An attempt whose identity
  step and state update return keeps the value the state update derived.
\<close>


theorem update_state_derivation:
  "(plug_context c = None \<longrightarrow> plug_state c d = (Inr v, d') \<longrightarrow>
      update_state c (s, d) = (Inr (), s\<lparr>state := Some (v = SWITCH_STATE_ON c)\<rparr>, d'))
   \<and> (plug_context c = Some ctx \<longrightarrow> plug_sys_info c d = (Inr info, d') \<longrightarrow>
      children info = Some cs \<longrightarrow> find (\<lambda>ch. child_id ch = ctx) cs = Some ch \<longrightarrow>
      update_state c (s, d) = (Inr (), s\<lparr>state := Some (child_state ch = 1)\<rparr>, d'))
   \<and> (identity_step c (s, d) = (Inr (), s1, d1) \<longrightarrow>
      update_state c (s1, d1) = (Inr (), s2, d2) \<longrightarrow>
      state (fst (snd (attempt_update c (s, d)))) = state s2)"
proof (intro conjI impI)
  assume "plug_context c = None" "plug_state c d = (Inr v, d')"
  then show "update_state c (s, d) = (Inr (), s\<lparr>state := Some (v = SWITCH_STATE_ON c)\<rparr>, d')"
    by (simp add: update_state_def then_do_def query_def assign_def)
next
  assume "plug_context c = Some ctx" "plug_sys_info c d = (Inr info, d')"
    "children info = Some cs" "find (\<lambda>ch. child_id ch = ctx) cs = Some ch"
  then show "update_state c (s, d) = (Inr (), s\<lparr>state := Some (child_state ch = 1)\<rparr>, d')"
    by (simp add: update_state_def plug_from_context_def then_do_def query_def assign_def
        return_def)
next
  assume i: "identity_step c (s, d) = (Inr (), s1, d1)"
    and u: "update_state c (s1, d1) = (Inr (), s2, d2)"
  let ?rest = "then_do (emeter_step c) (\<lambda>_. assign (\<lambda>s. s\<lparr>is_ready := True\<rparr>))"
  have rest: "keeps state ?rest"
    by (intro keeps_then_do keeps_emeter_step keeps_assign) simp_all
  have body: "attempt_update_body c (s, d) = ?rest (s2, d2)"
    using i u by (simp add: attempt_update_body_def then_do_def)
  obtain r s3 d3 where b: "?rest (s2, d2) = (r, s3, d3)" by (cases "?rest (s2, d2)") auto
  have "state s3 = state s2" using keepsD[OF rest b] .
  then show "state (fst (snd (attempt_update c (s, d)))) = state s2"
    using b body by (cases r) (simp_all add: attempt_update_def)
qed

theorem update_state_derivation_witness:
  "update_state (demo_plug None True never Map.empty) (init, (0, True))
     = (Inr (), init\<lparr>state := Some True\<rparr>, (1, True))
   \<and> update_state (demo_plug (Some ''80'') True never Map.empty) (init, (0, False))
     = (Inr (), init\<lparr>state := Some False\<rparr>, (1, False))
   \<and> state (fst (snd (attempt_update (demo_plug None True never Map.empty)
        (resolved_lamp, (7, False))))) = Some False"
proof -
  have 1: "update_state (demo_plug None True never Map.empty) (init, (0, True))
     = (Inr (), init\<lparr>state := Some True\<rparr>, (1, True))"
    using update_state_derivation[where c = "demo_plug None True never Map.empty"
        and d = "(0, True)" and v = "''ON''" and d' = "(1, True)" and s = init]
    by (simp add: demo_plug_def answer_def never_def)
  have 2: "update_state (demo_plug (Some ''80'') True never Map.empty) (init, (0, False))
     = (Inr (), init\<lparr>state := Some False\<rparr>, (1, False))"
    using update_state_derivation[where c = "demo_plug (Some ''80'') True never Map.empty"
        and d = "(0, False)" and d' = "(1, False)" and s = init and ctx = "''80''"
        and info = "\<lparr>children = Some [\<lparr>child_id = ''79'', child_alias = ''left'', child_state = 0\<rparr>,
                     \<lparr>child_id = ''80'', child_alias = ''right'', child_state = 0\<rparr>],
              entries = [(''sw_ver'', ''1.0.8'')]\<rparr>"
        and cs = "[\<lparr>child_id = ''79'', child_alias = ''left'', child_state = 0\<rparr>,
                     \<lparr>child_id = ''80'', child_alias = ''right'', child_state = 0\<rparr>]"
        and ch = "\<lparr>child_id = ''80'', child_alias = ''right'', child_state = 0\<rparr>"]
    by (simp add: demo_plug_def answer_def never_def)
  have t: "sysinfo_truthy (sysinfo resolved_lamp)" by code_simp
  have i: "identity_step (demo_plug None True never Map.empty) (resolved_lamp, (7, False))
     = (Inr (), resolved_lamp, (7, False))"
    using t by (simp add: identity_step_def return_def)
  have u: "update_state (demo_plug None True never Map.empty) (resolved_lamp, (7, False))
     = (Inr (), resolved_lamp\<lparr>state := Some False\<rparr>, (8, False))"
    by (simp add: update_state_def then_do_def query_def assign_def demo_plug_def answer_def
        never_def)
  have 3: "state (fst (snd (attempt_update (demo_plug None True never Map.empty)
        (resolved_lamp, (7, False))))) = Some False"
    using update_state_derivation[where c = "demo_plug None True never Map.empty"
        and d = "(7, False)" and s = resolved_lamp and ?s1.0 = resolved_lamp
        and ?d1.0 = "(7, False)" and ?s2.0 = "resolved_lamp\<lparr>state := Some False\<rparr>"
        and ?d2.0 = "(8, False)"] i u
    by simp
  show ?thesis using 1 2 3 by simp
qed

text \<open>
  Claim C8. When the turn-off command of the device client returns, \<^verbatim>\<open>turn_off\<close> is
  that command followed by one \<^verbatim>\<open>update_state\<close> in the world the command left: it
  ends as that one state update ends (it is not tried again when it raises, and the
  attributes are then as before), and it writes no attribute but the on/off state. When
  the command raises, the exception leaves \<^verbatim>\<open>turn_off\<close> with the attributes as before.
\<close>

theorem turn_off_updates_state_once:
  "(plug_turn_off c d = (Inr (), d1) \<longrightarrow>
      turn_off c (s, d) = update_state c (s, d1)
      \<and> fst (snd (turn_off c (s, d))) = s\<lparr>state := state (fst (snd (turn_off c (s, d))))\<rparr>
      \<and> (\<forall>ex. fst (turn_off c (s, d)) = Inl ex \<longrightarrow> fst (snd (turn_off c (s, d))) = s))
   \<and> (plug_turn_off c d = (Inl ex', d1) \<longrightarrow> turn_off c (s, d) = (Inl ex', s, d1))"
proof (intro conjI impI allI)
  assume c: "plug_turn_off c d = (Inr (), d1)"
  show eq: "turn_off c (s, d) = update_state c (s, d1)"
    using c by (simp add: turn_off_def then_do_def query_def)
  obtain r s' d' where u: "update_state c (s, d1) = (r, s', d')"
    by (cases "update_state c (s, d1)") auto
  have others: "keeps (\<lambda>s. s\<lparr>state := None\<rparr>) (update_state c)"
    by (rule keeps_update_state) simp
  have "s'\<lparr>state := None\<rparr> = s\<lparr>state := None\<rparr>" using keepsD[OF others u] .
  then have "s' = s\<lparr>state := state s'\<rparr>"
    by (cases s, cases s') simp
  then show "fst (snd (turn_off c (s, d))) = s\<lparr>state := state (fst (snd (turn_off c (s, d))))\<rparr>"
    using eq u by simp
  fix ex
  assume "fst (turn_off c (s, d)) = Inl ex"
  then have "r = Inl ex" using eq u by simp
  then have "s' = s"
    using u by (auto simp: update_state_def plug_from_context_def then_do_def query_def
        assign_def raise_def return_def split: option.splits prod.splits sum.splits)
  then show "fst (snd (turn_off c (s, d))) = s" using eq u by simp
next
  assume "plug_turn_off c d = (Inl ex', d1)"
  then show "turn_off c (s, d) = (Inl ex', s, d1)"
    by (simp add: turn_off_def then_do_def query_def)
qed

theorem turn_off_updates_state_once_witness:
  "plug_turn_off (demo_plug None True never Map.empty) (7, True) = (Inr (), (8, False))
   \<and> turn_off (demo_plug None True never Map.empty) (resolved_lamp, (7, True))
     = (Inr (), resolved_lamp\<lparr>state := Some False\<rparr>, (9, False))
   \<and> state resolved_lamp = Some True
   \<and> plug_turn_off (demo_plug None True always Map.empty) (7, True) = (Inl OSError, (8, True))
   \<and> turn_off (demo_plug None True always Map.empty) (resolved_lamp, (7, True))
     = (Inl OSError, resolved_lamp, (8, True))"
proof -
  have c: "plug_turn_off (demo_plug None True never Map.empty) (7, True) = (Inr (), (8, False))"
    by (simp add: demo_plug_def switch_relay_def never_def)
  have u: "update_state (demo_plug None True never Map.empty) (resolved_lamp, (8, False))
     = (Inr (), resolved_lamp\<lparr>state := Some False\<rparr>, (9, False))"
    by (simp add: update_state_def then_do_def query_def assign_def demo_plug_def answer_def
        never_def)
  have b: "state resolved_lamp = Some True" by code_simp
  have f: "plug_turn_off (demo_plug None True always Map.empty) (7, True) = (Inl OSError, (8, True))"
    by (simp add: demo_plug_def switch_relay_def always_def)
  show ?thesis
    using c u b f
      turn_off_updates_state_once[where c = "demo_plug None True never Map.empty"
        and d = "(7, True)" and ?d1.0 = "(8, False)" and s = resolved_lamp]
      turn_off_updates_state_once[where c = "demo_plug None True always Map.empty"
        and d = "(7, True)" and ?d1.0 = "(8, True)" and s = resolved_lamp and ex' = OSError]
    by simp
qed



text \<open>
  Claim C10, as the code has it. A call of \<^verbatim>\<open>async_update\<close> in which all 20 attempts
  fail returns, and the branch it ends in takes the switch as the twentieth attempt left
  it and writes the availability (false) and, when the switch was available, one warning.
  Over the whole call, today's energy is as before the call, and so is the identity when
  it was resolved before. The on/off state and the meter readings are as before the call
  when every attempt failed before its state update had returned, as it does when the
  device cannot be reached at all; an attempt that fails later has written them.
\<close>

theorem exhausted_cycle_frame:
  "(all_failed c MAX_ATTEMPTS (s, d) \<longrightarrow> after_failures c MAX_ATTEMPTS (s, d) = (s20, d20) \<longrightarrow>
      async_update c (s, d) = (Some (Inr ()), exhausted s20, d20)
      \<and> snapshot (exhausted s20) = snapshot s20
      \<and> is_ready (exhausted s20) = is_ready s20
      \<and> \<not> available (exhausted s20)
      \<and> device_state_attributes (exhausted s20) ATTR_TODAY_ENERGY_KWH
          = device_state_attributes s ATTR_TODAY_ENERGY_KWH
      \<and> (sysinfo_truthy (sysinfo s) \<longrightarrow>
            device_identity (exhausted s20) = device_identity s)
      \<and> (all_failed_early c MAX_ATTEMPTS (s, d) \<longrightarrow>
            is_on (exhausted s20) = is_on s
            \<and> device_state_attributes (exhausted s20) = device_state_attributes s))
   \<and> (unreachable c \<longrightarrow>
      fst (async_update c (s, d)) = Some (Inr ())
      \<and> snapshot (fst (snd (async_update c (s, d)))) = snapshot s
      \<and> \<not> available (fst (snd (async_update c (s, d)))))"
proof (intro conjI impI)
  assume f: "all_failed c MAX_ATTEMPTS (s, d)"
    and a: "after_failures c MAX_ATTEMPTS (s, d) = (s20, d20)"
  have "update_loop c (MAX_ATTEMPTS + 0) (s, d) = update_loop c 0 (s20, d20)"
    using update_loop_after_failures[OF f, of 0] a by simp
  then show "async_update c (s, d) = (Some (Inr ()), exhausted s20, d20)"
    by (simp add: async_update_def exhausted_def)
  show "snapshot (exhausted s20) = snapshot s20"
    by (simp add: exhausted_def snapshot_def device_identity_def is_on_def
        device_state_attributes_def)
  show "is_ready (exhausted s20) = is_ready s20"
    by (simp add: exhausted_def)
  show "\<not> available (exhausted s20)"
    by (simp add: exhausted_def)
  show "device_state_attributes (exhausted s20) ATTR_TODAY_ENERGY_KWH
          = device_state_attributes s ATTR_TODAY_ENERGY_KWH"
    using after_failures_today[OF f] a
    by (simp add: exhausted_def device_state_attributes_def)
next
  assume a: "after_failures c MAX_ATTEMPTS (s, d) = (s20, d20)"
    and t: "sysinfo_truthy (sysinfo s)"
  show "device_identity (exhausted s20) = device_identity s"
    using after_failures_identity[OF t, of c MAX_ATTEMPTS d] a
    by (simp add: exhausted_def device_identity_def)
next
  assume a: "after_failures c MAX_ATTEMPTS (s, d) = (s20, d20)"
    and e: "all_failed_early c MAX_ATTEMPTS (s, d)"
  show "is_on (exhausted s20) = is_on s"
    using after_failures_early[OF e] a by (simp add: exhausted_def is_on_def)
  show "device_state_attributes (exhausted s20) = device_state_attributes s"
    using after_failures_early[OF e] a by (simp add: exhausted_def device_state_attributes_def)
next
  assume u: "unreachable c"
  show "fst (async_update c (s, d)) = Some (Inr ())"
    using update_loop_unreachable[OF u, of MAX_ATTEMPTS s d] by (simp add: async_update_def)
  show "snapshot (fst (snd (async_update c (s, d)))) = snapshot s"
    using update_loop_unreachable[OF u, of MAX_ATTEMPTS s d] by (simp add: async_update_def)
  show "\<not> available (fst (snd (async_update c (s, d))))"
    using update_loop_unreachable[OF u, of MAX_ATTEMPTS s d] by (simp add: async_update_def)
qed

theorem exhausted_cycle_frame_witness:
  "all_failed (demo_plug None True always Map.empty) MAX_ATTEMPTS (lamp_available, (0, False))
   \<and> all_failed_early (demo_plug None True always Map.empty) MAX_ATTEMPTS
        (lamp_available, (0, False))
   \<and> sysinfo_truthy (sysinfo lamp_available)
   \<and> unreachable (demo_plug None True always Map.empty)
   \<and> fst (async_update (demo_plug None True always Map.empty) (lamp_available, (0, False)))
       = Some (Inr ())
   \<and> \<not> available (fst (snd (async_update (demo_plug None True always Map.empty)
        (lamp_available, (0, False)))))
   \<and> snapshot (fst (snd (async_update (demo_plug None True always Map.empty)
        (lamp_available, (0, False))))) = snapshot lamp_available
   \<and> is_on lamp_available = Some True
   \<and> available lamp_available
   \<and> all_failed meter_down MAX_ATTEMPTS (lamp_available, (0, False))
   \<and> device_identity (fst (snd (async_update meter_down (lamp_available, (0, False)))))
       = device_identity lamp_available
   \<and> device_state_attributes (fst (snd (async_update meter_down (lamp_available, (0, False)))))
        ATTR_TODAY_ENERGY_KWH
       = device_state_attributes lamp_available ATTR_TODAY_ENERGY_KWH"
proof -
  let ?z = "demo_plug None True always Map.empty"
  have f: "all_failed ?z MAX_ATTEMPTS (lamp_available, (0, False))" by code_simp
  have e: "all_failed_early ?z MAX_ATTEMPTS (lamp_available, (0, False))" by code_simp
  have t: "sysinfo_truthy (sysinfo lamp_available)" by code_simp
  have u: "unreachable ?z"
    by (simp add: unreachable_def always_raises_def demo_plug_def answer_def always_def
        caught_def split: prod.splits)
  have o: "is_on lamp_available = Some True" by code_simp
  have v: "available lamp_available" by (simp add: lamp_available_def)
  have fm: "all_failed meter_down MAX_ATTEMPTS (lamp_available, (0, False))" by code_simp
  obtain s20 d20 where a: "after_failures ?z MAX_ATTEMPTS (lamp_available, (0, False)) = (s20, d20)"
    by (cases "after_failures ?z MAX_ATTEMPTS (lamp_available, (0, False))") auto
  obtain m20 e20 where am: "after_failures meter_down MAX_ATTEMPTS (lamp_available, (0, False))
      = (m20, e20)"
    by (cases "after_failures meter_down MAX_ATTEMPTS (lamp_available, (0, False))") auto
  note z = exhausted_cycle_frame[of ?z lamp_available "(0, False)" s20 d20]
  note m = exhausted_cycle_frame[of meter_down lamp_available "(0, False)" m20 e20]
  from z u have 1: "fst (async_update ?z (lamp_available, (0, False))) = Some (Inr ())
      \<and> snapshot (fst (snd (async_update ?z (lamp_available, (0, False))))) = snapshot lamp_available
      \<and> \<not> available (fst (snd (async_update ?z (lamp_available, (0, False)))))"
    by blast
  from z f a e have 2: "is_on (exhausted s20) = is_on lamp_available
      \<and> device_state_attributes (exhausted s20) = device_state_attributes lamp_available"
    by blast
  from m fm am have 3: "async_update meter_down (lamp_available, (0, False))
      = (Some (Inr ()), exhausted m20, e20)"
    by blast
  from m fm am t have 4: "device_identity (exhausted m20) = device_identity lamp_available
      \<and> device_state_attributes (exhausted m20) ATTR_TODAY_ENERGY_KWH
        = device_state_attributes lamp_available ATTR_TODAY_ENERGY_KWH"
    by blast
  have 5: "device_identity (fst (snd (async_update meter_down (lamp_available, (0, False)))))
       = device_identity lamp_available
     \<and> device_state_attributes (fst (snd (async_update meter_down (lamp_available, (0, False)))))
        ATTR_TODAY_ENERGY_KWH
       = device_state_attributes lamp_available ATTR_TODAY_ENERGY_KWH"
    unfolding 3 using 4 by simp
  show ?thesis using f e t u o v fm 1 5 by blast
qed

theorem exhausted_cycle_rewrites_state_counterexample:
  "all_failed meter_down MAX_ATTEMPTS (lamp_available, (0, False))
   \<and> fst (async_update meter_down (lamp_available, (0, False))) = Some (Inr ())
   \<and> \<not> available (fst (snd (async_update meter_down (lamp_available, (0, False)))))
   \<and> is_on lamp_available = Some True
   \<and> is_on (fst (snd (async_update meter_down (lamp_available, (0, False))))) = Some False"
  by code_simp

text \<open>
  Claim C1, as the code has it. When the requests to the device raise nothing but device
  errors and I/O errors, and the addressed child, if there is one, is listed in every
  answer to the system information request, neither \<^verbatim>\<open>attempt_update\<close> nor
  \<^verbatim>\<open>async_update\<close> raises. A device error or I/O error in the body of an attempt is
  caught: the attempt returns, with one warning more in the log and \<^verbatim>\<open>_is_ready\<close> as it
  was. Any other exception of the body leaves \<^verbatim>\<open>attempt_update\<close>.
\<close>

theorem device_errors_are_caught:
  "(device_errors_only c \<longrightarrow> child_listed c \<longrightarrow>
      fst (attempt_update c (s, d)) = Inr ()
      \<and> fst (async_update c (s, d)) = Some (Inr ()))
   \<and> (attempt_update_body c (s, d) = (Inl ex, s1, d1) \<longrightarrow> caught ex \<longrightarrow>
      attempt_update c (s, d)
        = (Inr (),
           s1\<lparr>LOGGER := LOGGER s1 @ [Retrying SLEEP_TIME (plug_host c) (alias_name s1) ex]\<rparr>,
           d1)
      \<and> is_ready s1 = is_ready s)
   \<and> (attempt_update_body c (s, d) = (Inl ex, s1, d1) \<longrightarrow> \<not> caught ex \<longrightarrow>
      attempt_update c (s, d) = (Inl ex, s1, d1))"
proof (intro conjI impI)
  assume h: "device_errors_only c" "child_listed c"
  show "fst (attempt_update c (s, d)) = Inr ()" by (rule attempt_update_returns[OF h])
  show "fst (async_update c (s, d)) = Some (Inr ())"
    unfolding async_update_def by (rule update_loop_returns[OF h])
next
  assume b: "attempt_update_body c (s, d) = (Inl ex, s1, d1)" and c: "caught ex"
  show "attempt_update c (s, d)
        = (Inr (),
           s1\<lparr>LOGGER := LOGGER s1 @ [Retrying SLEEP_TIME (plug_host c) (alias_name s1) ex]\<rparr>,
           d1)"
    using b c by (simp add: attempt_update_def caught_def)
  show "is_ready s1 = is_ready s"
    using raise_keepsD[OF raise_keeps_is_ready_body b] .
next
  assume "attempt_update_body c (s, d) = (Inl ex, s1, d1)" and "\<not> caught ex"
  then show "attempt_update c (s, d) = (Inl ex, s1, d1)"
    by (simp add: attempt_update_def caught_def)
qed

theorem device_errors_are_caught_witness:
  "device_errors_only (demo_plug (Some ''80'') True (before 5) Map.empty)
   \<and> child_listed (demo_plug (Some ''80'') True (before 5) Map.empty)
   \<and> fst (attempt_update (demo_plug (Some ''80'') True (before 5) Map.empty) (init, (0, True)))
       = Inr ()
   \<and> fst (async_update (demo_plug (Some ''80'') True (before 5) Map.empty) (init, (0, True)))
       = Some (Inr ())
   \<and> attempt_update (demo_plug (Some ''80'') True (before 5) Map.empty) (init, (0, True))
       = (Inr (), init\<lparr>LOGGER := [Retrying SLEEP_TIME ''192.168.1.20'' None OSError]\<rparr>, (1, True))
   \<and> attempt_update strip_81 (resolved_lamp, (0, True)) = (Inl StopIteration, resolved_lamp, (1, True))"
proof -
  let ?c = "demo_plug (Some ''80'') True (before 5) Map.empty"
  have e: "device_errors_only ?c"
    by (auto simp: device_errors_only_def raises_caught_def demo_plug_def answer_def caught_def
        split: prod.splits if_splits)
  have l: "child_listed ?c"
    by (auto simp: child_listed_def demo_plug_def answer_def split: prod.splits if_splits)
  have b: "attempt_update_body ?c (init, (0, True)) = (Inl OSError, init, (1, True))"
    by (simp add: attempt_update_body_def identity_step_def resolve_identity_def then_do_def
        query_def sysinfo_truthy_def init_def demo_plug_def answer_def before_def)
  have c: "caught OSError" by (simp add: caught_def)
  have t: "sysinfo_truthy (sysinfo resolved_lamp)" by code_simp
  have b2: "attempt_update_body strip_81 (resolved_lamp, (0, True))
      = (Inl StopIteration, resolved_lamp, (1, True))"
    using t by (simp add: attempt_update_body_def identity_step_def update_state_def
        plug_from_context_def then_do_def query_def return_def raise_def strip_81_def
        demo_plug_def answer_def never_def)
  have n: "\<not> caught StopIteration" by (simp add: caught_def)
  have a: "LOGGER init = []" "alias_name init = None" "plug_host ?c = ''192.168.1.20''"
    by (simp_all add: init_def demo_plug_def)
  show ?thesis
    using e l b c b2 n a
      device_errors_are_caught[of ?c init "(0, True)" OSError init "(1, True)"]
      device_errors_are_caught[of strip_81 resolved_lamp "(0, True)" StopIteration resolved_lamp
        "(1, True)"]
    by simp
qed

theorem lookup_failure_escapes_counterexample:
  "fst (attempt_update strip_81 (init, (0, True))) = Inl StopIteration
   \<and> fst (attempt_update plug_as_outlet (init, (0, True))) = Inl KeyError
   \<and> fst (async_update plug_as_outlet (init, (0, True))) = Some (Inl KeyError)"
  by (simp add: async_update_def MAX_ATTEMPTS_def eval_nat_numeral attempt_update_def
      attempt_update_body_def identity_step_def resolve_identity_def plug_from_context_def
      then_do_def query_def assign_def raise_def return_def strip_81_def plug_as_outlet_def
      demo_plug_def answer_def never_def init_def sysinfo_truthy_def)

text \<open>
  Claim C3, as the code has it. An attempt writes the attributes in place, one after the
  other, so how much of the cached snapshot a failed attempt leaves as it was depends on
  where the exception is raised. Raised while the identity is resolved or the on/off
  state is derived: the on/off state and the meter readings are as before the attempt.
  Raised by the question for the energy meter or by the realtime request: the meter
  readings are as before. Raised anywhere in the attempt: today's energy is as before.
\<close>

theorem failed_attempt_frame:
  "(body_prefix c (s, d) = (Inl ex, s1, d1) \<longrightarrow>
      is_on (fst (snd (attempt_update c (s, d)))) = is_on s
      \<and> device_state_attributes (fst (snd (attempt_update c (s, d))))
          = device_state_attributes s)
   \<and> (body_prefix c (s, d) = (Inr (), s1, d1) \<longrightarrow>
      fst (plug_has_emeter c d1) = Inl ex
        \<or> plug_has_emeter c d1 = (Inr True, d2) \<and> fst (plug_get_emeter_realtime c d2) = Inl ex \<longrightarrow>
      device_state_attributes (fst (snd (attempt_update c (s, d))))
        = device_state_attributes s)
   \<and> (fst (attempt_update_body c (s, d)) = Inl ex \<longrightarrow>
      device_state_attributes (fst (snd (attempt_update c (s, d)))) ATTR_TODAY_ENERGY_KWH
        = device_state_attributes s ATTR_TODAY_ENERGY_KWH)"
proof (intro conjI impI)
  assume p: "body_prefix c (s, d) = (Inl ex, s1, d1)"
  have st: "state s1 = state s" using raise_keepsD[OF raise_keeps_state_body_prefix p] .
  have "keeps emeter_params (body_prefix c)" by (rule keeps_body_prefix) simp_all
  then have em: "emeter_params s1 = emeter_params s" using p by (rule keepsD)
  have b: "attempt_update_body c (s, d) = (Inl ex, s1, d1)"
    using p by (simp add: attempt_update_body_prefix then_do_def)
  obtain l where l: "fst (snd (attempt_update c (s, d))) = s1\<lparr>LOGGER := l\<rparr>"
    using attempt_update_of_body[OF b] by blast
  show "is_on (fst (snd (attempt_update c (s, d)))) = is_on s"
    using l st by (simp add: is_on_def)
  show "device_state_attributes (fst (snd (attempt_update c (s, d))))
          = device_state_attributes s"
    using l em by (simp add: device_state_attributes_def)
next
  assume p: "body_prefix c (s, d) = (Inr (), s1, d1)"
    and q: "fst (plug_has_emeter c d1) = Inl ex
        \<or> plug_has_emeter c d1 = (Inr True, d2) \<and> fst (plug_get_emeter_realtime c d2) = Inl ex"
  have "keeps emeter_params (body_prefix c)" by (rule keeps_body_prefix) simp_all
  then have em: "emeter_params s1 = emeter_params s" using p by (rule keepsD)
  have "\<exists>d'. emeter_step c (s1, d1) = (Inl ex, s1, d')"
    using q
  proof
    assume "fst (plug_has_emeter c d1) = Inl ex"
    then obtain d' where "plug_has_emeter c d1 = (Inl ex, d')"
      by (cases "plug_has_emeter c d1") auto
    then have "emeter_step c (s1, d1) = (Inl ex, s1, d')"
      by (simp add: emeter_step_def then_do_def query_def)
    then show ?thesis by blast
  next
    assume h: "plug_has_emeter c d1 = (Inr True, d2) \<and> fst (plug_get_emeter_realtime c d2) = Inl ex"
    then obtain d' where "plug_get_emeter_realtime c d2 = (Inl ex, d')"
      by (cases "plug_get_emeter_realtime c d2") auto
    then have "emeter_step c (s1, d1) = (Inl ex, s1, d')"
      using h by (simp add: emeter_step_def then_do_def query_def)
    then show ?thesis by blast
  qed
  then obtain d' where "emeter_step c (s1, d1) = (Inl ex, s1, d')" by blast
  then have b: "attempt_update_body c (s, d) = (Inl ex, s1, d')"
    using p by (simp add: attempt_update_body_prefix then_do_def)
  obtain l where l: "fst (snd (attempt_update c (s, d))) = s1\<lparr>LOGGER := l\<rparr>"
    using attempt_update_of_body[OF b] by blast
  show "device_state_attributes (fst (snd (attempt_update c (s, d))))
        = device_state_attributes s"
    using l em by (simp add: device_state_attributes_def)
next
  assume "fst (attempt_update_body c (s, d)) = Inl ex"
  then obtain s1 d1 where b: "attempt_update_body c (s, d) = (Inl ex, s1, d1)"
    by (cases "attempt_update_body c (s, d)") auto
  have t: "emeter_params s1 ATTR_TODAY_ENERGY_KWH = emeter_params s ATTR_TODAY_ENERGY_KWH"
    using raise_keepsD[OF raise_keeps_today_body b] .
  obtain l where l: "fst (snd (attempt_update c (s, d))) = s1\<lparr>LOGGER := l\<rparr>"
    using attempt_update_of_body[OF b] by blast
  show "device_state_attributes (fst (snd (attempt_update c (s, d)))) ATTR_TODAY_ENERGY_KWH
        = device_state_attributes s ATTR_TODAY_ENERGY_KWH"
    using l t by (simp add: device_state_attributes_def)
qed

theorem failed_attempt_frame_witness:
  "body_prefix (lamp_down_at 0) (lamp_day5, (0, False)) = (Inl OSError, lamp_day5, (1, False))
   \<and> is_on (fst (snd (attempt_update (lamp_down_at 0) (lamp_day5, (0, False))))) = is_on lamp_day5
   \<and> is_on lamp_day5 = Some True
   \<and> device_state_attributes (fst (snd (attempt_update (lamp_down_at 0) (lamp_day5, (0, False)))))
       = device_state_attributes lamp_day5
   \<and> body_prefix (lamp_down_at 1) (lamp_day5, (0, False))
       = (Inr (), lamp_day5\<lparr>state := Some False\<rparr>, (1, False))
   \<and> fst (plug_has_emeter (lamp_down_at 1) (1, False)) = Inl OSError
   \<and> device_state_attributes (fst (snd (attempt_update (lamp_down_at 1) (lamp_day5, (0, False)))))
       = device_state_attributes lamp_day5
   \<and> fst (attempt_update_body (lamp_down_at 3) (lamp_day5, (0, False))) = Inl OSError
   \<and> device_state_attributes (fst (snd (attempt_update (lamp_down_at 3) (lamp_day5, (0, False)))))
        ATTR_TODAY_ENERGY_KWH
       = device_state_attributes lamp_day5 ATTR_TODAY_ENERGY_KWH
   \<and> device_state_attributes lamp_day5 ATTR_TODAY_ENERGY_KWH = Some ''0.456''"
proof -
  have t: "sysinfo_truthy (sysinfo lamp_day5)" by code_simp
  have p0: "body_prefix (lamp_down_at 0) (lamp_day5, (0, False))
      = (Inl OSError, lamp_day5, (1, False))"
    using t by (simp add: body_prefix_def identity_step_def update_state_def then_do_def
        query_def return_def lamp_down_at_def demo_plug_def answer_def only_at_def)
  have p1: "body_prefix (lamp_down_at 1) (lamp_day5, (0, False))
      = (Inr (), lamp_day5\<lparr>state := Some False\<rparr>, (1, False))"
    using t by (simp add: body_prefix_def identity_step_def update_state_def then_do_def
        query_def return_def assign_def lamp_down_at_def demo_plug_def answer_def only_at_def)
  have h1: "fst (plug_has_emeter (lamp_down_at 1) (1, False)) = Inl OSError"
    by (simp add: lamp_down_at_def demo_plug_def answer_def only_at_def)
  have b3: "fst (attempt_update_body (lamp_down_at 3) (lamp_day5, (0, False))) = Inl OSError"
    by code_simp
  have o: "is_on lamp_day5 = Some True" by code_simp
  have e: "device_state_attributes lamp_day5 ATTR_TODAY_ENERGY_KWH = Some ''0.456''"
    by code_simp
  note f0 = failed_attempt_frame[of "lamp_down_at 0" lamp_day5 "(0, False)" OSError lamp_day5
      "(1, False)"]
  note f1 = failed_attempt_frame[of "lamp_down_at 1" lamp_day5 "(0, False)" OSError
      "lamp_day5\<lparr>state := Some False\<rparr>" "(1, False)"]
  note f3 = failed_attempt_frame[of "lamp_down_at 3" lamp_day5 "(0, False)" OSError]
  from f0 p0 have c0: "is_on (fst (snd (attempt_update (lamp_down_at 0) (lamp_day5, (0, False)))))
        = is_on lamp_day5
      \<and> device_state_attributes (fst (snd (attempt_update (lamp_down_at 0) (lamp_day5, (0, False)))))
        = device_state_attributes lamp_day5"
    by blast
  from f1 p1 h1 have c1: "device_state_attributes
        (fst (snd (attempt_update (lamp_down_at 1) (lamp_day5, (0, False)))))
      = device_state_attributes lamp_day5"
    by blast
  from f3 b3 have c3: "device_state_attributes
        (fst (snd (attempt_update (lamp_down_at 3) (lamp_day5, (0, False)))))
        ATTR_TODAY_ENERGY_KWH
      = device_state_attributes lamp_day5 ATTR_TODAY_ENERGY_KWH"
    by blast
  show ?thesis using p0 p1 h1 b3 o e c0 c1 c3 by blast
qed

theorem partial_update_survives_counterexample:
  "fst (attempt_update_body (lamp_down_at 7) (init, (0, True))) = Inl OSError
   \<and> fst (attempt_update (lamp_down_at 7) (init, (0, True))) = Inr ()
   \<and> \<not> is_ready (fst (snd (attempt_update (lamp_down_at 7) (init, (0, True)))))
   \<and> is_on init = None
   \<and> is_on (fst (snd (attempt_update (lamp_down_at 7) (init, (0, True))))) = Some True
   \<and> device_state_attributes init ATTR_CURRENT_POWER_W = None
   \<and> device_state_attributes (fst (snd (attempt_update (lamp_down_at 7) (init, (0, True)))))
        ATTR_CURRENT_POWER_W = Some ''12.34''"
  by code_simp

text \<open>
  Claim C6, as the code has it. An attempt on a metered device in which everything up to
  the daily history succeeds and the history has no entry for the day of the month on the
  clock: the attempt returns and is marked successful, nothing is logged, and today's
  energy is what it was before the attempt. It is absent if it was absent; a value
  stored by an earlier attempt stays.
\<close>

theorem missing_today_keeps_entry:
  "body_prefix c (s, d) = (Inr (), s1, d1) \<longrightarrow>
   plug_has_emeter c d1 = (Inr True, d2) \<longrightarrow>
   plug_get_emeter_realtime c d2 = (Inr r, d3) \<longrightarrow>
   plug_get_emeter_daily c d3 = (Inr m, d4) \<longrightarrow>
   m (strftime_e c d4) = None \<longrightarrow>
     fst (attempt_update c (s, d)) = Inr ()
     \<and> snd (snd (attempt_update c (s, d))) = d4
     \<and> is_ready (fst (snd (attempt_update c (s, d))))
     \<and> LOGGER (fst (snd (attempt_update c (s, d)))) = LOGGER s
     \<and> device_state_attributes (fst (snd (attempt_update c (s, d)))) ATTR_TODAY_ENERGY_KWH
         = device_state_attributes s ATTR_TODAY_ENERGY_KWH"
proof (intro impI)
  assume p: "body_prefix c (s, d) = (Inr (), s1, d1)"
    and h: "plug_has_emeter c d1 = (Inr True, d2)"
    and rt: "plug_get_emeter_realtime c d2 = (Inr r, d3)"
    and dl: "plug_get_emeter_daily c d3 = (Inr m, d4)"
    and no: "m (strftime_e c d4) = None"
  let ?e = "(emeter_params s1)
      (ATTR_CURRENT_POWER_W \<mapsto> str_format c ''{:.2f}'' (reading_power r),
       ATTR_TOTAL_ENERGY_KWH \<mapsto> str_format c ''{:.3f}'' (reading_total r),
       ATTR_VOLTAGE \<mapsto> str_format c ''{:.1f}'' (reading_voltage r),
       ATTR_CURRENT_A \<mapsto> str_format c ''{:.2f}'' (reading_current r))"
  have "keeps emeter_params (body_prefix c)" by (rule keeps_body_prefix) simp_all
  then have em: "emeter_params s1 = emeter_params s" using p by (rule keepsD)
  have "keeps LOGGER (body_prefix c)" by (rule keeps_body_prefix) simp_all
  then have lg: "LOGGER s1 = LOGGER s" using p by (rule keepsD)
  have es: "emeter_step c (s1, d1) = (Inr (), s1\<lparr>emeter_params := ?e\<rparr>, d4)"
    using h rt dl no
    by (simp add: emeter_step_def then_do_def query_def set_param_def assign_def return_def)
  have b: "attempt_update_body c (s, d)
      = (Inr (), s1\<lparr>emeter_params := ?e, is_ready := True\<rparr>, d4)"
    using p es by (simp add: attempt_update_body_prefix then_do_def assign_def)
  then have a: "attempt_update c (s, d)
      = (Inr (), s1\<lparr>emeter_params := ?e, is_ready := True\<rparr>, d4)"
    by (simp add: attempt_update_def)
  have td: "?e ATTR_TODAY_ENERGY_KWH = emeter_params s ATTR_TODAY_ENERGY_KWH"
    using em by (simp add: ATTR_CURRENT_POWER_W_def ATTR_TOTAL_ENERGY_KWH_def ATTR_VOLTAGE_def
        ATTR_CURRENT_A_def ATTR_TODAY_ENERGY_KWH_def)
  show "fst (attempt_update c (s, d)) = Inr ()
     \<and> snd (snd (attempt_update c (s, d))) = d4
     \<and> is_ready (fst (snd (attempt_update c (s, d))))
     \<and> LOGGER (fst (snd (attempt_update c (s, d)))) = LOGGER s
     \<and> device_state_attributes (fst (snd (attempt_update c (s, d)))) ATTR_TODAY_ENERGY_KWH
         = device_state_attributes s ATTR_TODAY_ENERGY_KWH"
    unfolding a using lg td by (simp add: device_state_attributes_def)
qed

theorem missing_today_keeps_entry_witness:
  "body_prefix metered_lamp (init, (200, True))
     = (Inr (), fst (snd (body_prefix metered_lamp (init, (200, True)))), (205, True))
   \<and> history_day5 (strftime_e metered_lamp (208, True)) = None
   \<and> fst (attempt_update metered_lamp (init, (200, True))) = Inr ()
   \<and> is_ready (fst (snd (attempt_update metered_lamp (init, (200, True)))))
   \<and> LOGGER (fst (snd (attempt_update metered_lamp (init, (200, True))))) = LOGGER init
   \<and> device_state_attributes (fst (snd (attempt_update metered_lamp (init, (200, True)))))
        ATTR_TODAY_ENERGY_KWH = device_state_attributes init ATTR_TODAY_ENERGY_KWH
   \<and> device_state_attributes init ATTR_TODAY_ENERGY_KWH = None"
proof -
  have r: "fst (body_prefix metered_lamp (init, (200, True))) = Inr ()" by code_simp
  have w: "snd (snd (body_prefix metered_lamp (init, (200, True)))) = (205, True)" by code_simp
  have p: "body_prefix metered_lamp (init, (200, True))
     = (Inr (), fst (snd (body_prefix metered_lamp (init, (200, True)))), (205, True))"
    using r w by (cases "body_prefix metered_lamp (init, (200, True))") auto
  have h: "plug_has_emeter metered_lamp (205, True) = (Inr True, (206, True))"
    by (simp add: metered_lamp_def demo_plug_def answer_def never_def)
  have rt: "plug_get_emeter_realtime metered_lamp (206, True)
      = (Inr \<lparr>reading_power = ''12.34'', reading_total = ''1.234'',
         reading_voltage = ''120.1'', reading_current = ''0.12''\<rparr>, (207, True))"
    by (simp add: metered_lamp_def demo_plug_def answer_def never_def)
  have dl: "plug_get_emeter_daily metered_lamp (207, True) = (Inr history_day5, (208, True))"
    by (simp add: metered_lamp_def demo_plug_def answer_def never_def)
  have no: "history_day5 (strftime_e metered_lamp (208, True)) = None"
    by (simp add: metered_lamp_def demo_plug_def history_day5_def)
  have i: "device_state_attributes init ATTR_TODAY_ENERGY_KWH = None"
    by (simp add: device_state_attributes_def init_def)
  note m = missing_today_keeps_entry[of metered_lamp init "(200, True)"
      "fst (snd (body_prefix metered_lamp (init, (200, True))))" "(205, True)" "(206, True)"
      "\<lparr>reading_power = ''12.34'', reading_total = ''1.234'',
         reading_voltage = ''120.1'', reading_current = ''0.12''\<rparr>" "(207, True)"
      history_day5 "(208, True)"]
  from m p h rt dl no
  have c: "fst (attempt_update metered_lamp (init, (200, True))) = Inr ()
     \<and> snd (snd (attempt_update metered_lamp (init, (200, True)))) = (208, True)
     \<and> is_ready (fst (snd (attempt_update metered_lamp (init, (200, True)))))
     \<and> LOGGER (fst (snd (attempt_update metered_lamp (init, (200, True))))) = LOGGER init
     \<and> device_state_attributes (fst (snd (attempt_update metered_lamp (init, (200, True)))))
          ATTR_TODAY_ENERGY_KWH
         = device_state_attributes init ATTR_TODAY_ENERGY_KWH"
    by blast
  show ?thesis using p no c i by blast
qed

theorem stale_today_energy_counterexample:
  "history_day5 (strftime_e metered_lamp
      (snd (host_run metered_lamp [Refresh, Wait 100] (init, (0, True))))) = None
   \<and> fst (async_update metered_lamp
        (host_run metered_lamp [Refresh, Wait 100] (init, (0, True)))) = Some (Inr ())
   \<and> is_ready (fst (snd (async_update metered_lamp
        (host_run metered_lamp [Refresh, Wait 100] (init, (0, True))))))
   \<and> history_day5 (strftime_e metered_lamp (snd (snd (async_update metered_lamp
        (host_run metered_lamp [Refresh, Wait 100] (init, (0, True))))))) = None
   \<and> device_state_attributes (fst (snd (async_update metered_lamp
        (host_run metered_lamp [Refresh, Wait 100] (init, (0, True))))))
        ATTR_TODAY_ENERGY_KWH = Some ''0.456''"
  by code_simp

end
